theory Spec2Isabelle
  imports Complex_Main "HOL-Library.Word" "HOL-Library.Log_Nat"
begin

unbundle bit_operations_syntax

section \<open>Numbers rendered as text\<close>

text \<open>
  The source interpolates numbers into strings with template literals
  (\<^verbatim>\<open>`keygroup_${i}`\<close>, \<^verbatim>\<open>root="${midiNote}"\<close>). All numbers that reach these places are
  integers, which JavaScript prints in decimal with a leading minus sign when negative.
\<close>

definition digitChar :: "nat \<Rightarrow> char" where
  "digitChar n = ''0123456789'' ! (n mod 10)"

fun showNat :: "nat \<Rightarrow> string" where
  "showNat n = (if n < 10 then [digitChar n] else showNat (n div 10) @ [digitChar (n mod 10)])"

declare showNat.simps [simp del]

definition showInt :: "int \<Rightarrow> string" where
  "showInt i = (if i < 0 then CHR ''-'' # showNat (nat (- i)) else showNat (nat i))"

section \<open>The instrument model (instrument-service)\<close>

record VelocityLayer =
  vl_id :: string
  lowVelocity :: int
  highVelocity :: int
  sampleId :: "string option"

record Keygroup =
  kg_id :: string
  lowNote :: int
  highNote :: int
  rootNote :: int
  velocityLayers :: "VelocityLayer list"

record Instrument =
  inst_id :: string
  inst_name :: string
  keygroups :: "Keygroup list"

text \<open>A sample as the sample mapper hands it to the instrument service.\<close>

record MappedSample =
  ms_id :: string
  midiNote :: int
  ms_velocity :: int
  rootPitch :: string

subsection \<open>InstrumentService.autoMapSamples\<close>

text \<open>
  \<^verbatim>\<open>mappedSamples.sort((a, b) => a.midiNote - b.midiNote)\<close>: the sort of the language is
  stable, as is insertion sort by key.
\<close>

definition sortByMidiNote :: "MappedSample list \<Rightarrow> MappedSample list" where
  "sortByMidiNote ms = sort_key midiNote ms"

text \<open>The body of the loop \<^verbatim>\<open>for (let i = 0; i < mappedSamples.length; i++)\<close>.\<close>

definition makeKeygroup :: "MappedSample list \<Rightarrow> nat \<Rightarrow> Keygroup" where
  "makeKeygroup mappedSamples i =
     (let sample = mappedSamples ! i;
          lowNote = (if i > 0
                     then (midiNote (mappedSamples ! (i - 1)) + midiNote sample) div 2 + 1
                     else 0);
          highNote = (if i < length mappedSamples - 1
                      then (midiNote sample + midiNote (mappedSamples ! (i + 1))) div 2
                      else 127)
      in \<lparr> kg_id = ''keygroup_'' @ showNat i,
           lowNote = lowNote,
           highNote = highNote,
           rootNote = midiNote sample,
           velocityLayers =
             [\<lparr> vl_id = ''velocity_'' @ showNat i @ ''_0'',
                lowVelocity = 0,
                highVelocity = 127,
                sampleId = Some (ms_id sample) \<rparr>] \<rparr>)"

text \<open>
  The method itself. The registry of instruments is a map from ids; \<open>mappedSamples\<close> is
  what the sample mapper returned for the requested ids. The result is the registry after
  the call and the number of samples assigned.
\<close>

definition autoMapSamples ::
  "(string \<rightharpoonup> Instrument) \<Rightarrow> string \<Rightarrow> MappedSample list \<Rightarrow> (string \<rightharpoonup> Instrument) \<times> nat" where
  "autoMapSamples instruments instrumentId mappedSamples =
     (case instruments instrumentId of
        None \<Rightarrow> (instruments, 0)
      | Some instrument \<Rightarrow>
          if length mappedSamples = 0 then (instruments, 0)
          else
            let sorted = sortByMidiNote mappedSamples;
                kgs = map (makeKeygroup sorted) [0 ..< length sorted]
            in (instruments(instrumentId \<mapsto> instrument\<lparr>keygroups := kgs\<rparr>), length kgs))"


subsection \<open>The boundary rule on the ascending list of roots\<close>

text \<open>
  The two bounds of the loop body, written over the list of root notes alone. They are used to
  state and prove the properties of the key ranges; \<open>makeKeygroup_fields\<close> ties them to
  the code.
\<close>

definition keyLow :: "int list \<Rightarrow> nat \<Rightarrow> int" where
  "keyLow rs i = (if i > 0 then (rs ! (i - 1) + rs ! i) div 2 + 1 else 0)"

definition keyHigh :: "int list \<Rightarrow> nat \<Rightarrow> int" where
  "keyHigh rs i = (if i < length rs - 1 then (rs ! i + rs ! (i + 1)) div 2 else 127)"

lemma makeKeygroup_fields:
  "i < length ms \<Longrightarrow>
   rootNote (makeKeygroup ms i) = map midiNote ms ! i \<and>
   lowNote (makeKeygroup ms i) = keyLow (map midiNote ms) i \<and>
   highNote (makeKeygroup ms i) = keyHigh (map midiNote ms) i"
  by (auto simp: makeKeygroup_def keyLow_def keyHigh_def Let_def)

lemma map_sortByMidiNote: "map midiNote (sortByMidiNote ms) = sort (map midiNote ms)"
proof -
  have ins: "map f (insort_key f x xs) = insort (f x) (map f xs)" for f :: "'b \<Rightarrow> int" and x xs
    by (induction xs) auto
  have "map f (sort_key f xs) = sort (map f xs)" for f :: "'b \<Rightarrow> int" and xs
    by (induction xs) (simp_all add: ins)
  then show ?thesis by (simp add: sortByMidiNote_def)
qed

lemma strict_nth:
  "sorted_wrt (<) (rs :: int list) \<Longrightarrow> i < j \<Longrightarrow> j < length rs \<Longrightarrow> rs ! i < rs ! j"
  by (simp add: sorted_wrt_nth_less)

lemma keyLow_Suc: "Suc i < length rs \<Longrightarrow> keyLow rs (Suc i) = keyHigh rs i + 1"
  by (auto simp: keyLow_def keyHigh_def)

lemma keyLow_le_root:
  assumes "sorted_wrt (<) rs" "i < length rs" "0 \<le> rs ! 0"
  shows "keyLow rs i \<le> rs ! i"
proof (cases i)
  case 0 then show ?thesis using assms by (simp add: keyLow_def)
next
  case (Suc j)
  then have "rs ! j < rs ! i" using assms by (simp add: sorted_wrt_nth_less)
  then show ?thesis using Suc by (simp add: keyLow_def)
qed

lemma root_le_keyHigh:
  assumes "sorted_wrt (<) rs" "i < length rs" "rs ! (length rs - 1) \<le> 127"
  shows "rs ! i \<le> keyHigh rs i"
proof (cases "i < length rs - 1")
  case True
  then have "rs ! i < rs ! (i + 1)" using assms by (simp add: sorted_wrt_nth_less)
  then show ?thesis using True by (simp add: keyHigh_def)
next
  case False
  then have "i = length rs - 1" using assms by simp
  then show ?thesis using assms False by (simp add: keyHigh_def)
qed

lemma keyLow_less:
  assumes "sorted_wrt (<) rs" "i < j" "j < length rs" "0 \<le> rs ! 0"
  shows "keyLow rs i < keyLow rs j"
proof -
  obtain j' where j: "j = Suc j'" using assms(2) by (cases j) auto
  have "keyLow rs i \<le> rs ! i" using assms by (intro keyLow_le_root) auto
  also have "rs ! i \<le> rs ! j'"
  proof (cases "i = j'")
    case False
    then have "i < j'" using assms j by simp
    then show ?thesis using assms j by (simp add: sorted_wrt_nth_less less_imp_le)
  qed simp
  also have "rs ! j' < keyLow rs j"
  proof -
    have "rs ! j' < rs ! j" using assms j by (simp add: sorted_wrt_nth_less)
    then show ?thesis using j by (simp add: keyLow_def)
  qed
  finally show ?thesis .
qed

lemma key_cover:
  assumes "j < length rs" "keyLow rs j \<le> k" "k \<le> 127"
  shows "\<exists>i<length rs. keyLow rs i \<le> k \<and> k \<le> keyHigh rs i"
  using assms
proof (induction "length rs - j" arbitrary: j)
  case 0
  then show ?case by simp
next
  case (Suc n)
  show ?case
  proof (cases "k \<le> keyHigh rs j")
    case True
    then show ?thesis using Suc.prems by blast
  next
    case False
    then have lt: "j < length rs - 1" using Suc.prems by (auto simp: keyHigh_def split: if_splits)
    then have "keyLow rs (Suc j) \<le> k" using False by (simp add: keyLow_Suc)
    moreover have "n = length rs - Suc j" using Suc.hyps(2) by simp
    moreover have "Suc j < length rs" using lt by simp
    ultimately show ?thesis using Suc.hyps(1) Suc.prems(3) by blast
  qed
qed

lemma key_unique:
  assumes "sorted_wrt (<) rs" "0 \<le> rs ! 0"
    and "i < length rs" "keyLow rs i \<le> k" "k \<le> keyHigh rs i"
    and "j < length rs" "keyLow rs j \<le> k" "k \<le> keyHigh rs j"
  shows "i = j"
proof -
  have aux: False if "a < b" "b < length rs" "k \<le> keyHigh rs a" "keyLow rs b \<le> k" for a b
  proof -
    have "keyHigh rs a + 1 = keyLow rs (Suc a)" using that by (simp add: keyLow_Suc)
    moreover have "keyLow rs (Suc a) \<le> keyLow rs b"
    proof (cases "Suc a = b")
      case False
      then have "Suc a < b" using that by simp
      then show ?thesis using keyLow_less[OF assms(1) _ that(2) assms(2)] by (simp add: less_imp_le)
    qed simp
    ultimately show False using that by linarith
  qed
  show ?thesis
  proof (rule ccontr)
    assume "i \<noteq> j"
    then consider "i < j" | "j < i" by linarith
    then show False using aux assms by cases blast+
  qed
qed

subsection \<open>Key ranges of the auto-mapper\<close>

definition exampleInstrument :: Instrument where
  "exampleInstrument = \<lparr> inst_id = ''instrument_1'', inst_name = ''Default Instrument'', keygroups = [] \<rparr>"

definition exampleMapped :: "MappedSample list" where
  "exampleMapped =
     [\<lparr> ms_id = ''s1'', midiNote = 60, ms_velocity = 127, rootPitch = ''C4'' \<rparr>,
      \<lparr> ms_id = ''s2'', midiNote = 48, ms_velocity = 127, rootPitch = ''C3'' \<rparr>,
      \<lparr> ms_id = ''s3'', midiNote = 72, ms_velocity = 127, rootPitch = ''C5'' \<rparr>]"

lemma autoMapSamples_example:
  "map (\<lambda>kg. (kg_id kg, lowNote kg, rootNote kg, highNote kg, map sampleId (velocityLayers kg)))
     (keygroups (the (fst (autoMapSamples [''instrument_1'' \<mapsto> exampleInstrument] ''instrument_1'' exampleMapped) ''instrument_1'')))
   = [(''keygroup_0'', 0, 48, 54, [Some ''s2'']), (''keygroup_1'', 55, 60, 66, [Some ''s1'']), (''keygroup_2'', 67, 72, 127, [Some ''s3''])]"
  by code_simp

text \<open>
  \<^bold>\<open>C1, as the claim states it, fails\<close> in its last part. The sample mapper gives the numbers
  128 to 131 to the note names \<^verbatim>\<open>G#9\<close> to \<^verbatim>\<open>B9\<close>, and the auto-mapper takes the roots as they
  come. For one sample with root 129 (\<^verbatim>\<open>A9\<close>) the keygroup is \<open>[0, 127]\<close> with root 129: the
  root lies outside its own range.
\<close>

theorem root_outside_range_counterexample:
  "keygroups (the (fst (autoMapSamples [''instrument_1'' \<mapsto> exampleInstrument] ''instrument_1''
        [\<lparr> ms_id = ''s1'', midiNote = 129, ms_velocity = 127, rootPitch = ''A9'' \<rparr>]) ''instrument_1''))
   = [\<lparr> kg_id = ''keygroup_0'', lowNote = 0, highNote = 127, rootNote = 129,
        velocityLayers = [\<lparr> vl_id = ''velocity_0_0'', lowVelocity = 0, highVelocity = 127,
                            sampleId = Some ''s1'' \<rparr>] \<rparr>]"
  by code_simp

text \<open>
  \<^bold>\<open>C1, amended.\<close> For mapped samples with pairwise distinct root notes, the auto-mapper replaces the
  keygroups of the instrument by one keygroup per sample, in ascending order of root. Keygroup
  \<open>i\<close> has the \<open>i\<close>-th smallest root, \<open>low = 0\<close> if it is the first and
  \<open>\<lfloor>(root[i-1] + root[i]) / 2\<rfloor> + 1\<close> otherwise, \<open>high = 127\<close> if it is the last and
  \<open>\<lfloor>(root[i] + root[i+1]) / 2\<rfloor>\<close> otherwise. Each range starts right after the previous one
  ends. When the roots are MIDI note numbers (between 0 and 127), every range lies in
  \<open>[0, 127]\<close>, every root lies inside its own range, and every key of \<open>[0, 127]\<close> lies in
  exactly one range: full coverage and no overlap.
\<close>

theorem autoMapSamples_key_ranges:
  assumes inst: "instruments instrumentId = Some instrument"
    and ne: "mappedSamples \<noteq> []"
    and dist: "distinct (map midiNote mappedSamples)"
  shows "\<exists>instrument'.
     autoMapSamples instruments instrumentId mappedSamples =
       (instruments(instrumentId \<mapsto> instrument'), length mappedSamples) \<and>
     (let kgs = keygroups instrument';
          root = sort (map midiNote mappedSamples);
          N = length mappedSamples
      in length kgs = N \<and>
         (\<forall>i<N. rootNote (kgs ! i) = root ! i \<and>
                lowNote (kgs ! i) = (if i = 0 then 0 else (root ! (i - 1) + root ! i) div 2 + 1) \<and>
                highNote (kgs ! i) = (if i = N - 1 then 127 else (root ! i + root ! (i + 1)) div 2)) \<and>
         (\<forall>i. Suc i < N \<longrightarrow> lowNote (kgs ! Suc i) = highNote (kgs ! i) + 1) \<and>
         ((\<forall>r\<in>set root. 0 \<le> r \<and> r \<le> 127) \<longrightarrow>
            (\<forall>i<N. 0 \<le> lowNote (kgs ! i) \<and> lowNote (kgs ! i) \<le> rootNote (kgs ! i) \<and>
                   rootNote (kgs ! i) \<le> highNote (kgs ! i) \<and> highNote (kgs ! i) \<le> 127) \<and>
            (\<forall>k. 0 \<le> k \<and> k \<le> 127 \<longrightarrow>
                 (\<exists>!i. i < N \<and> lowNote (kgs ! i) \<le> k \<and> k \<le> highNote (kgs ! i)))))"
proof -
  define sorted where "sorted = sortByMidiNote mappedSamples"
  define rs where "rs = sort (map midiNote mappedSamples)"
  define N where "N = length mappedSamples"
  define kgs where "kgs = map (makeKeygroup sorted) [0 ..< length sorted]"
  have len: "length sorted = N" by (simp add: sorted_def sortByMidiNote_def N_def)
  have lrs: "length rs = N" by (simp add: rs_def N_def)
  have N0: "0 < N" using ne by (simp add: N_def)
  have roots: "map midiNote sorted = rs" by (simp add: sorted_def rs_def map_sortByMidiNote)
  have strict: "sorted_wrt (<) rs" using dist by (simp add: rs_def strict_sorted_iff)
  have run: "autoMapSamples instruments instrumentId mappedSamples =
       (instruments(instrumentId \<mapsto> instrument\<lparr>keygroups := kgs\<rparr>), length mappedSamples)"
    using inst ne by (simp add: autoMapSamples_def Let_def kgs_def sorted_def sortByMidiNote_def)
  have lk: "length kgs = N" by (simp add: kgs_def len)
  have fld: "rootNote (kgs ! i) = rs ! i \<and> lowNote (kgs ! i) = keyLow rs i \<and>
             highNote (kgs ! i) = keyHigh rs i" if "i < N" for i
    using that makeKeygroup_fields[of i sorted] by (simp add: kgs_def len roots)
  have A: "\<forall>i<N. rootNote (kgs ! i) = rs ! i \<and>
                lowNote (kgs ! i) = (if i = 0 then 0 else (rs ! (i - 1) + rs ! i) div 2 + 1) \<and>
                highNote (kgs ! i) = (if i = N - 1 then 127 else (rs ! i + rs ! (i + 1)) div 2)"
  proof (intro allI impI)
    fix i assume i: "i < N"
    have "keyHigh rs i = (if i = N - 1 then 127 else (rs ! i + rs ! (i + 1)) div 2)"
      using i by (auto simp: keyHigh_def lrs)
    then show "rootNote (kgs ! i) = rs ! i \<and>
                lowNote (kgs ! i) = (if i = 0 then 0 else (rs ! (i - 1) + rs ! i) div 2 + 1) \<and>
                highNote (kgs ! i) = (if i = N - 1 then 127 else (rs ! i + rs ! (i + 1)) div 2)"
      using fld[OF i] by (simp add: keyLow_def)
  qed
  have B: "\<forall>i. Suc i < N \<longrightarrow> lowNote (kgs ! Suc i) = highNote (kgs ! i) + 1"
    using fld by (simp add: keyLow_Suc lrs)
  have C: "(\<forall>i<N. 0 \<le> lowNote (kgs ! i) \<and> lowNote (kgs ! i) \<le> rootNote (kgs ! i) \<and>
                   rootNote (kgs ! i) \<le> highNote (kgs ! i) \<and> highNote (kgs ! i) \<le> 127) \<and>
            (\<forall>k. 0 \<le> k \<and> k \<le> 127 \<longrightarrow>
                 (\<exists>!i. i < N \<and> lowNote (kgs ! i) \<le> k \<and> k \<le> highNote (kgs ! i)))"
    if bounds: "\<forall>r\<in>set rs. 0 \<le> r \<and> r \<le> 127"
  proof -
    have nth_b: "0 \<le> rs ! i \<and> rs ! i \<le> 127" if "i < N" for i
      using bounds that lrs by (metis nth_mem)
    have r0: "0 \<le> rs ! 0" using nth_b[OF N0] by simp
    have rl: "rs ! (length rs - 1) \<le> 127" using nth_b[of "N - 1"] N0 lrs by simp
    have low0: "0 \<le> keyLow rs i" if "i < N" for i
    proof (cases i)
      case 0 then show ?thesis by (simp add: keyLow_def)
    next
      case (Suc j)
      then have "0 \<le> rs ! j" "0 \<le> rs ! i" using nth_b[of j] nth_b[of i] that by simp_all
      then show ?thesis using Suc by (simp add: keyLow_def)
    qed
    have high127: "keyHigh rs i \<le> 127" if "i < N" for i
    proof (cases "i < length rs - 1")
      case True
      then have "rs ! i \<le> 127" "rs ! (i + 1) \<le> 127" using nth_b[of i] nth_b[of "i + 1"] lrs by simp_all
      then show ?thesis using True by (simp add: keyHigh_def)
    qed (simp add: keyHigh_def)
    have C1: "\<forall>i<N. 0 \<le> lowNote (kgs ! i) \<and> lowNote (kgs ! i) \<le> rootNote (kgs ! i) \<and>
                   rootNote (kgs ! i) \<le> highNote (kgs ! i) \<and> highNote (kgs ! i) \<le> 127"
      using fld low0 high127 keyLow_le_root[OF strict _ r0] root_le_keyHigh[OF strict _ rl]
      by (simp add: lrs)
    have C2: "\<exists>!i. i < N \<and> lowNote (kgs ! i) \<le> k \<and> k \<le> highNote (kgs ! i)"
      if k: "0 \<le> k \<and> k \<le> 127" for k
    proof -
      have "keyLow rs 0 \<le> k" using k by (simp add: keyLow_def)
      then obtain i where i: "i < N" "keyLow rs i \<le> k" "k \<le> keyHigh rs i"
        using key_cover[of 0 rs k] N0 k lrs by auto
      show ?thesis
      proof (rule ex1I[of _ i])
        show "i < N \<and> lowNote (kgs ! i) \<le> k \<and> k \<le> highNote (kgs ! i)"
          using i fld by simp
      next
        fix j assume j: "j < N \<and> lowNote (kgs ! j) \<le> k \<and> k \<le> highNote (kgs ! j)"
        then have "j < N" by simp
        from fld[OF this] j have "j < length rs" "keyLow rs j \<le> k" "k \<le> keyHigh rs j"
          using lrs by simp_all
        then show "j = i"
          using key_unique[OF strict r0, of j k i] i lrs by simp
      qed
    qed
    show ?thesis using C1 C2 by blast
  qed
  show ?thesis
    unfolding Let_def
    apply (rule exI[of _ "instrument\<lparr>keygroups := kgs\<rparr>"])
    using run lk A B C unfolding rs_def N_def by simp
qed

text \<open>The theorem at three samples given out of order (roots 60, 48, 72).\<close>

theorem autoMapSamples_key_ranges_witness:
  "[''instrument_1'' \<mapsto> exampleInstrument] ''instrument_1'' = Some exampleInstrument \<and>
   exampleMapped \<noteq> [] \<and> distinct (map midiNote exampleMapped) \<and>
   (\<exists>instrument'. autoMapSamples [''instrument_1'' \<mapsto> exampleInstrument] ''instrument_1'' exampleMapped
        = ([''instrument_1'' \<mapsto> instrument'], 3) \<and>
      length (keygroups instrument') = 3 \<and>
      (\<forall>k. 0 \<le> k \<and> k \<le> 127 \<longrightarrow>
         (\<exists>!i. i < 3 \<and> lowNote (keygroups instrument' ! i) \<le> k \<and> k \<le> highNote (keygroups instrument' ! i))))"
proof -
  have h1: "[''instrument_1'' \<mapsto> exampleInstrument] ''instrument_1'' = Some exampleInstrument" by simp
  have h2: "exampleMapped \<noteq> []" by (simp add: exampleMapped_def)
  have h3: "distinct (map midiNote exampleMapped)" by (simp add: exampleMapped_def)
  have len: "length exampleMapped = 3" by (simp add: exampleMapped_def)
  have b: "\<forall>r\<in>set (sort (map midiNote exampleMapped)). 0 \<le> r \<and> r \<le> 127"
    by (simp add: exampleMapped_def)
  from autoMapSamples_key_ranges[of "[''instrument_1'' \<mapsto> exampleInstrument]" "''instrument_1''"
         exampleInstrument exampleMapped, OF h1 h2 h3] b
  show ?thesis
    unfolding Let_def len using h1 h2 h3 by auto
qed
section \<open>Velocity layers (multi-layer-exporter)\<close>

subsection \<open>Double precision arithmetic\<close>

text \<open>
  The numbers of the language are IEEE 754 doubles. A finite double is taken here as the
  rational number it stands for, and \<^verbatim>\<open>/\<close>, \<^verbatim>\<open>*\<close> and \<^verbatim>\<open>-\<close> as the exact operation followed by
  rounding to the nearest double, ties to even. The rounding keeps 53 significant bits at any
  magnitude, which is the rounding of doubles between \<^verbatim>\<open>2^-1022\<close> and \<^verbatim>\<open>2^1024\<close>; every number
  that is rounded below lies there or is 0. \<^verbatim>\<open>Math.floor\<close> is exact.
\<close>

text \<open>The exponent of a positive number: \<open>\<lfloor>log\<^sub>2 x\<rfloor>\<close>.\<close>

definition exponentOf :: "rat \<Rightarrow> int" where
  "exponentOf x = (if 1 \<le> x then bitlen \<lfloor>x\<rfloor> - 1 else - bitlen (\<lceil>1 / x\<rceil> - 1))"

text \<open>The nearest whole number, the even one of two that are equally near.\<close>

definition roundHalfEven :: "rat \<Rightarrow> int" where
  "roundHalfEven x =
     (let f = \<lfloor>x\<rfloor>; d = x - of_int f in
      if d < 1 / 2 then f else if 1 / 2 < d then f + 1 else if even f then f else f + 1)"

text \<open>The nearest number with 53 significant bits.\<close>

definition roundToDouble :: "rat \<Rightarrow> rat" where
  "roundToDouble x =
     (if x = 0 then 0
      else let ulp = 2 powi (exponentOf \<bar>x\<bar> - 52)
           in sgn x * of_int (roundHalfEven (\<bar>x\<bar> / ulp)) * ulp)"

lemma bitlen_bounds_rat:
  assumes "0 < n"
  shows "(2 :: rat) powi (bitlen n - 1) \<le> of_int n" and "of_int n < (2 :: rat) powi bitlen n"
proof -
  have b: "1 \<le> bitlen n" using assms bitlen_eq_zero_iff[of n] bitlen_nonneg[of n] by linarith
  have "2 ^ nat (bitlen n - 1) \<le> n" and "n < 2 ^ nat (bitlen n)"
    using bitlen_bounds[OF assms] by simp_all
  then have "(of_int (2 ^ nat (bitlen n - 1)) :: rat) \<le> of_int n"
    and "(of_int n :: rat) < of_int (2 ^ nat (bitlen n))"
    by (simp_all only: of_int_le_iff of_int_less_iff)
  then show "(2 :: rat) powi (bitlen n - 1) \<le> of_int n" and "of_int n < (2 :: rat) powi bitlen n"
    using b by (simp_all add: power_int_def)
qed

lemma exponentOf_bounds:
  assumes "0 < x"
  shows "2 powi exponentOf x \<le> x" and "x < 2 powi (exponentOf x + 1)"
proof -
  have "2 powi exponentOf x \<le> x \<and> x < 2 powi (exponentOf x + 1)"
  proof (cases "1 \<le> x")
    case True
    define n where "n = \<lfloor>x\<rfloor>"
    have n: "0 < n" using True by (simp add: n_def)
    have e: "exponentOf x = bitlen n - 1" using True by (simp add: exponentOf_def n_def)
    have "2 powi (bitlen n - 1) \<le> (of_int n :: rat)" using bitlen_bounds_rat(1)[OF n] .
    also have "of_int n \<le> x" by (simp add: n_def)
    finally have lo: "2 powi exponentOf x \<le> x" by (simp add: e)
    have "n < 2 ^ nat (bitlen n)" using bitlen_bounds[OF n] by simp
    then have "n + 1 \<le> 2 ^ nat (bitlen n)" by simp
    then have "(of_int (n + 1) :: rat) \<le> of_int (2 ^ nat (bitlen n))" by (simp only: of_int_le_iff)
    moreover have "x < of_int (n + 1)" unfolding n_def by linarith
    moreover have "0 \<le> bitlen n" by (rule bitlen_nonneg)
    ultimately have "x < 2 powi (exponentOf x + 1)" by (simp add: e power_int_def)
    with lo show ?thesis by simp
  next
    case False
    define y where "y = 1 / x"
    define k where "k = \<lceil>y\<rceil>"
    define b where "b = bitlen (k - 1)"
    have y: "1 < y" using False assms by (simp add: y_def)
    have k: "0 < k - 1" using y by (simp add: k_def less_ceiling_iff)
    have e: "exponentOf x = - b" using False by (simp add: exponentOf_def y_def k_def b_def)
    have b1: "1 \<le> b" using k bitlen_eq_zero_iff[of "k - 1"] bitlen_nonneg[of "k - 1"]
      unfolding b_def by linarith
    have "k - 1 < 2 ^ nat b" using bitlen_bounds[OF k] by (simp add: b_def)
    then have "k \<le> 2 ^ nat b" by simp
    then have "(of_int k :: rat) \<le> of_int (2 ^ nat b)" by (simp only: of_int_le_iff)
    then have "(of_int k :: rat) \<le> 2 ^ nat b" by simp
    moreover have "y \<le> of_int k" by (simp add: k_def)
    ultimately have "y \<le> 2 ^ nat b" by linarith
    then have "1 / x \<le> 2 ^ nat b" by (simp add: y_def)
    then have "1 \<le> 2 ^ nat b * x" using assms by (simp add: field_simps)
    then have lo: "2 powi (- b) \<le> x" using b1 by (simp add: power_int_def field_simps)
    have "(2 :: rat) powi (bitlen (k - 1) - 1) \<le> of_int (k - 1)" using bitlen_bounds_rat(1)[OF k] .
    moreover have "of_int (k - 1) < y" by (simp add: k_def) linarith
    ultimately have "(2 :: rat) powi (b - 1) < y" by (simp add: b_def)
    then have "(2 :: rat) ^ nat (b - 1) < 1 / x" using b1 by (simp add: power_int_def y_def)
    then have "x * 2 ^ nat (b - 1) < 1" using assms by (simp add: field_simps)
    then have "x < 1 / 2 ^ nat (b - 1)" by (simp add: field_simps)
    moreover have "(2 :: rat) powi (- b + 1) = 1 / 2 ^ nat (b - 1)"
      using b1 power_int_minus_divide[of "2 :: rat" "b - 1"] by (simp add: power_int_def)
    ultimately have "x < 2 powi (- b + 1)" by (simp only:)
    with lo show ?thesis by (simp add: e)
  qed
  then show "2 powi exponentOf x \<le> x" and "x < 2 powi (exponentOf x + 1)" by simp_all
qed

lemma exponentOf_unique:
  assumes "2 powi e \<le> x" "x < 2 powi (e + 1)"
  shows "exponentOf x = e"
proof -
  have x: "0 < x" using assms(1) zero_less_power_int[of "2 :: rat" e] by linarith
  note b = exponentOf_bounds[OF x]
  have "(2 :: rat) powi e < 2 powi (exponentOf x + 1)" using assms(1) b(2) by linarith
  then have "e < exponentOf x + 1"
    using power_int_increasing[of "exponentOf x + 1" e "2 :: rat"] by (cases "e < exponentOf x + 1") auto
  moreover have "(2 :: rat) powi exponentOf x < 2 powi (e + 1)" using assms(2) b(1) by linarith
  then have "exponentOf x < e + 1"
    using power_int_increasing[of "e + 1" "exponentOf x" "2 :: rat"] by (cases "exponentOf x < e + 1") auto
  ultimately show ?thesis by simp
qed

lemma exponentOf_mono:
  assumes "0 < x" "x \<le> y"
  shows "exponentOf x \<le> exponentOf y"
proof -
  have "(2 :: rat) powi exponentOf x < 2 powi (exponentOf y + 1)"
    using exponentOf_bounds(1)[OF assms(1)] exponentOf_bounds(2)[of y] assms by linarith
  then have "exponentOf x < exponentOf y + 1"
    using power_int_increasing[of "exponentOf y + 1" "exponentOf x" "2 :: rat"]
    by (cases "exponentOf x < exponentOf y + 1") auto
  then show ?thesis by simp
qed

lemma roundHalfEven_error: "\<bar>of_int (roundHalfEven x) - x\<bar> \<le> 1 / 2"
proof -
  have "of_int \<lfloor>x\<rfloor> \<le> x" "x < of_int \<lfloor>x\<rfloor> + 1" by linarith+
  then show ?thesis by (auto simp: roundHalfEven_def Let_def)
qed

lemma roundHalfEven_of_int [simp]: "roundHalfEven (of_int k) = k"
  by (simp add: roundHalfEven_def)

lemma roundHalfEven_floor: "\<lfloor>x\<rfloor> \<le> roundHalfEven x" "roundHalfEven x \<le> \<lfloor>x\<rfloor> + 1"
  by (simp_all add: roundHalfEven_def Let_def)

lemma roundHalfEven_mono:
  assumes "x \<le> y"
  shows "roundHalfEven x \<le> roundHalfEven y"
proof (cases "\<lfloor>x\<rfloor> = \<lfloor>y\<rfloor>")
  case True
  have "x - of_int \<lfloor>x\<rfloor> \<le> y - of_int \<lfloor>y\<rfloor>" using assms True by simp
  then show ?thesis using True by (auto simp: roundHalfEven_def Let_def)
next
  case False
  have "\<lfloor>x\<rfloor> \<le> \<lfloor>y\<rfloor>" using assms by (rule floor_mono)
  then have "\<lfloor>x\<rfloor> + 1 \<le> \<lfloor>y\<rfloor>" using False by simp
  then show ?thesis using roundHalfEven_floor(2)[of x] roundHalfEven_floor(1)[of y] by linarith
qed

lemma roundHalfEven_ge: "of_int k \<le> x \<Longrightarrow> k \<le> roundHalfEven x"
  using roundHalfEven_mono[of "of_int k" x] by simp

lemma roundHalfEven_le: "x \<le> of_int k \<Longrightarrow> roundHalfEven x \<le> k"
  using roundHalfEven_mono[of x "of_int k"] by simp

lemma ulp_facts:
  "(2 :: rat) powi e = 2 ^ 52 * 2 powi (e - 52)"
  "(2 :: rat) powi (e + 1) = 2 ^ 53 * 2 powi (e - 52)"
  "(2 :: rat) powi (e - 53) = 2 powi (e - 52) / 2"
  "0 < (2 :: rat) powi (e - 52)"
proof -
  have "(2 :: rat) powi (e - 52 + 52) = 2 powi (e - 52) * 2 powi 52"
    by (rule power_int_add) simp
  then show "(2 :: rat) powi e = 2 ^ 52 * 2 powi (e - 52)" by simp
  have "e + 1 = e - 52 + 53" by arith
  then have "(2 :: rat) powi (e + 1) = 2 powi (e - 52 + 53)" by (simp only:)
  also have "\<dots> = 2 powi (e - 52) * 2 powi 53"
    by (rule power_int_add) simp
  finally show "(2 :: rat) powi (e + 1) = 2 ^ 53 * 2 powi (e - 52)" by (simp add: mult.commute)
  have "(2 :: rat) powi (e - 53 + 1) = 2 powi (e - 53) * 2 powi 1"
    by (rule power_int_add) simp
  then show "(2 :: rat) powi (e - 53) = 2 powi (e - 52) / 2" by simp
  show "0 < (2 :: rat) powi (e - 52)" by simp
qed

lemma roundToDouble_zero [simp]: "roundToDouble 0 = 0"
  by (simp add: roundToDouble_def)

lemma roundToDouble_pos:
  "0 < x \<Longrightarrow>
   roundToDouble x
   = of_int (roundHalfEven (x / 2 powi (exponentOf x - 52))) * 2 powi (exponentOf x - 52)"
  by (simp add: roundToDouble_def Let_def)

lemma roundToDouble_minus: "roundToDouble (- x) = - roundToDouble x"
  by (simp add: roundToDouble_def Let_def)

lemma mantissa_bounds:
  assumes "0 < x"
  shows "2 ^ 52 \<le> x / 2 powi (exponentOf x - 52)" and "x / 2 powi (exponentOf x - 52) < 2 ^ 53"
proof -
  let ?u = "(2 :: rat) powi (exponentOf x - 52)"
  have u: "0 < ?u" by simp
  have "2 ^ 52 * ?u \<le> x" using exponentOf_bounds(1)[OF assms] ulp_facts(1)[of "exponentOf x"] by simp
  then show "2 ^ 52 \<le> x / ?u" using u by (simp add: pos_le_divide_eq)
  have "x < 2 ^ 53 * ?u" using exponentOf_bounds(2)[OF assms] ulp_facts(2)[of "exponentOf x"] by simp
  then show "x / ?u < 2 ^ 53" using u by (simp add: pos_divide_less_eq)
qed

lemma roundToDouble_form:
  assumes "0 < x"
  obtains n where "roundToDouble x = of_int n * 2 powi (exponentOf x - 52)"
    and "2 ^ 52 \<le> n" and "n \<le> 2 ^ 53"
proof -
  let ?m = "x / 2 powi (exponentOf x - 52)"
  have "(of_int (2 ^ 52) :: rat) \<le> ?m" using mantissa_bounds(1)[OF assms] by simp
  then have lo: "2 ^ 52 \<le> roundHalfEven ?m" by (rule roundHalfEven_ge)
  have "?m \<le> (of_int (2 ^ 53) :: rat)" using mantissa_bounds(2)[OF assms] by simp
  then have hi: "roundHalfEven ?m \<le> 2 ^ 53" by (rule roundHalfEven_le)
  show ?thesis using that[OF roundToDouble_pos[OF assms] lo hi] .
qed

lemma roundToDouble_bounds:
  assumes "0 < x"
  shows "2 powi exponentOf x \<le> roundToDouble x" and "roundToDouble x \<le> 2 powi (exponentOf x + 1)"
proof -
  let ?u = "(2 :: rat) powi (exponentOf x - 52)"
  obtain n where n: "roundToDouble x = of_int n * ?u" "2 ^ 52 \<le> n" "n \<le> 2 ^ 53"
    using roundToDouble_form[OF assms] by blast
  have "(of_int (2 ^ 52) :: rat) \<le> of_int n" using n(2) by (simp only: of_int_le_iff)
  then have "2 ^ 52 * ?u \<le> of_int n * ?u" by (intro mult_right_mono) simp_all
  then show "2 powi exponentOf x \<le> roundToDouble x"
    using n(1) ulp_facts(1)[of "exponentOf x"] by simp
  have "(of_int n :: rat) \<le> of_int (2 ^ 53)" using n(3) by (simp only: of_int_le_iff)
  then have "of_int n * ?u \<le> 2 ^ 53 * ?u" by (intro mult_right_mono) simp_all
  then show "roundToDouble x \<le> 2 powi (exponentOf x + 1)"
    using n(1) ulp_facts(2)[of "exponentOf x"] by simp
qed

lemma roundToDouble_error:
  assumes "0 < x"
  shows "\<bar>roundToDouble x - x\<bar> \<le> x / 2 ^ 53"
proof -
  let ?u = "(2 :: rat) powi (exponentOf x - 52)"
  let ?m = "x / ?u"
  have u: "0 < ?u" by simp
  have x: "x = ?m * ?u" by simp
  have "roundToDouble x - x = (of_int (roundHalfEven ?m) - ?m) * ?u"
    using roundToDouble_pos[OF assms] by (simp add: algebra_simps)
  then have "\<bar>roundToDouble x - x\<bar> = \<bar>of_int (roundHalfEven ?m) - ?m\<bar> * ?u"
    using u by (simp add: abs_mult)
  also have "\<dots> \<le> (1 / 2) * ?u"
    using roundHalfEven_error[of ?m] by (intro mult_right_mono) simp_all
  also have "\<dots> = 2 powi exponentOf x / 2 ^ 53"
    using ulp_facts(1)[of "exponentOf x"] by simp
  also have "\<dots> \<le> x / 2 ^ 53"
    using exponentOf_bounds(1)[OF assms] by (simp add: divide_right_mono)
  finally show ?thesis .
qed

lemma roundToDouble_representable:
  assumes "0 \<le> k" "k < 2 ^ 53"
  shows "roundToDouble (of_int k * 2 powi j) = of_int k * 2 powi j"
proof (cases "k = 0")
  case True
  then show ?thesis by simp
next
  case False
  define x :: rat where "x = of_int k * 2 powi j"
  define e where "e = exponentOf x"
  have k: "0 < k" using assms(1) False by simp
  have x: "0 < x" using k by (simp add: x_def)
  have "(of_int k :: rat) < of_int (2 ^ 53)" using assms(2) by (simp only: of_int_less_iff)
  then have "x < 2 ^ 53 * 2 powi j" unfolding x_def by (intro mult_strict_right_mono) simp_all
  also have "\<dots> = 2 powi (j + 53)"
    using power_int_add[of "2 :: rat" j 53] by simp
  finally have "(2 :: rat) powi e < 2 powi (j + 53)"
    using exponentOf_bounds(1)[OF x] by (simp add: e_def)
  then have "e < j + 53"
    using power_int_increasing[of "j + 53" e "2 :: rat"] by (cases "e < j + 53") auto
  then have d: "0 \<le> j - e + 52" by simp
  have pw: "(2 :: rat) powi j = 2 powi (j - e + 52) * 2 powi (e - 52)"
    using power_int_add[of "2 :: rat" "j - e + 52" "e - 52"] by simp
  have "x / 2 powi (e - 52) = of_int k * 2 powi (j - e + 52)"
    unfolding x_def pw by simp
  also have "\<dots> = of_int (k * 2 ^ nat (j - e + 52))"
    using d by (simp add: power_int_def)
  finally have "roundHalfEven (x / 2 powi (e - 52)) = k * 2 ^ nat (j - e + 52)"
    by (simp only: roundHalfEven_of_int)
  then have "roundToDouble x = of_int (k * 2 ^ nat (j - e + 52)) * 2 powi (e - 52)"
    using roundToDouble_pos[OF x] by (simp add: e_def)
  also have "\<dots> = of_int k * (2 powi (j - e + 52) * 2 powi (e - 52))"
    using d by (simp add: power_int_def)
  also have "\<dots> = x" unfolding x_def pw ..
  finally show ?thesis by (simp add: x_def)
qed

lemma roundToDouble_of_int:
  "0 \<le> k \<Longrightarrow> k < 2 ^ 53 \<Longrightarrow> roundToDouble (of_int k) = of_int k"
  using roundToDouble_representable[of k 0] by simp

lemma roundToDouble_nonneg: "0 \<le> x \<Longrightarrow> 0 \<le> roundToDouble x"
proof (cases "x = 0")
  case False
  assume "0 \<le> x"
  then have x: "0 < x" using False by simp
  have "0 < (2 :: rat) powi exponentOf x" by simp
  then show ?thesis using roundToDouble_bounds(1)[OF x] by linarith
qed simp

lemma roundToDouble_mono:
  assumes "0 \<le> x" "x \<le> y"
  shows "roundToDouble x \<le> roundToDouble y"
proof (cases "x = 0")
  case True
  then show ?thesis using roundToDouble_nonneg[of y] assms by simp
next
  case False
  then have x: "0 < x" and y: "0 < y" using assms by simp_all
  have le: "exponentOf x \<le> exponentOf y" using exponentOf_mono[OF x assms(2)] .
  show ?thesis
  proof (cases "exponentOf x = exponentOf y")
    case True
    let ?u = "(2 :: rat) powi (exponentOf y - 52)"
    have "x / ?u \<le> y / ?u" using assms(2) by (intro divide_right_mono) simp_all
    then have "roundHalfEven (x / ?u) \<le> roundHalfEven (y / ?u)" by (rule roundHalfEven_mono)
    then have "(of_int (roundHalfEven (x / ?u)) :: rat) \<le> of_int (roundHalfEven (y / ?u))"
      by (simp only: of_int_le_iff)
    then have "of_int (roundHalfEven (x / ?u)) * ?u \<le> of_int (roundHalfEven (y / ?u)) * ?u"
      by (intro mult_right_mono) simp_all
    then show ?thesis using roundToDouble_pos[OF x] roundToDouble_pos[OF y] True by simp
  next
    case False
    then have "exponentOf x + 1 \<le> exponentOf y" using le by simp
    then have "(2 :: rat) powi (exponentOf x + 1) \<le> 2 powi exponentOf y"
      by (intro power_int_increasing) simp_all
    then show ?thesis
      using roundToDouble_bounds(2)[OF x] roundToDouble_bounds(1)[OF y] by linarith
  qed
qed

text \<open>Subtracting one from a double between 1 and \<open>2^53\<close> is exact.\<close>

lemma roundToDouble_minus_one:
  assumes "1 \<le> x" "x < 2 ^ 53"
  shows "roundToDouble (roundToDouble x - 1) = roundToDouble x - 1"
proof -
  define e where "e = exponentOf x"
  have x: "0 < x" using assms(1) by simp
  obtain n where n: "roundToDouble x = of_int n * 2 powi (e - 52)" "2 ^ 52 \<le> n" "n \<le> 2 ^ 53"
    using roundToDouble_form[OF x] unfolding e_def by blast
  have "(2 :: rat) powi 0 < 2 powi (e + 1)"
    using exponentOf_bounds(2)[OF x] assms(1) by (simp add: e_def)
  then have e0: "0 \<le> e"
    using power_int_increasing[of "e + 1" 0 "2 :: rat"] by (cases "0 < e + 1") auto
  have "(2 :: rat) powi e < 2 powi 53"
    using exponentOf_bounds(1)[OF x] assms(2) by (simp add: e_def)
  then have e52: "e \<le> 52"
    using power_int_increasing[of 53 e "2 :: rat"] by (cases "e < 53") auto
  define k where "k = n - 2 ^ nat (52 - e)"
  have "(2 :: int) ^ nat (52 - e) \<le> 2 ^ 52" using e0 by (intro power_increasing) simp_all
  then have k0: "0 \<le> k" using n(2) by (simp add: k_def)
  have "(1 :: int) \<le> 2 ^ nat (52 - e)" by simp
  then have k53: "k < 2 ^ 53" using n(3) unfolding k_def by linarith
  have "(2 :: rat) powi (52 - e) * 2 powi (e - 52) = 1"
    using power_int_add[of "2 :: rat" "52 - e" "e - 52"] by simp
  then have one: "(2 :: rat) ^ nat (52 - e) * 2 powi (e - 52) = 1"
    using e52 by (simp add: power_int_def)
  have "roundToDouble x - 1 = of_int k * 2 powi (e - 52)"
    unfolding n(1) k_def using one by (simp add: algebra_simps)
  then show ?thesis using roundToDouble_representable[OF k0 k53, of "e - 52"] by simp
qed

text \<open>The floor of a double minus one, computed in doubles.\<close>

lemma floor_roundToDouble_minus_one:
  assumes "0 \<le> x" "x < 2 ^ 53"
  shows "\<lfloor>roundToDouble (roundToDouble x - 1)\<rfloor> = \<lfloor>roundToDouble x\<rfloor> - 1"
proof (cases "1 \<le> x")
  case True
  then show ?thesis using roundToDouble_minus_one[OF True assms(2)] by simp
next
  case False
  define p where "p = roundToDouble x"
  have "p \<le> roundToDouble 1" unfolding p_def using False by (intro roundToDouble_mono assms) simp
  then have p1: "p \<le> 1" using roundToDouble_of_int[of 1] by simp
  have p0: "0 \<le> p" unfolding p_def using assms(1) by (rule roundToDouble_nonneg)
  show ?thesis
  proof (cases "p = 1")
    case True
    then show ?thesis by (simp add: p_def[symmetric])
  next
    case False
    then have y: "0 < 1 - p" "1 - p \<le> 1" using p0 p1 by simp_all
    have "roundToDouble (1 - p) \<le> roundToDouble 1" using y by (intro roundToDouble_mono) simp_all
    then have hi: "roundToDouble (1 - p) \<le> 1" using roundToDouble_of_int[of 1] by simp
    have "0 < (2 :: rat) powi exponentOf (1 - p)" by simp
    then have lo: "0 < roundToDouble (1 - p)" using roundToDouble_bounds(1)[OF y(1)] by linarith
    have "roundToDouble (p - 1) = - roundToDouble (1 - p)"
      using roundToDouble_minus[of "1 - p"] by simp
    then have "\<lfloor>roundToDouble (p - 1)\<rfloor> = - 1" using lo hi by (simp add: floor_eq_iff)
    moreover have "\<lfloor>p\<rfloor> = 0" using p0 p1 False by (simp add: floor_eq_iff)
    ultimately show ?thesis by (simp add: p_def[symmetric])
  qed
qed

subsection \<open>assignVelocityRanges\<close>

text \<open>
  The zone record the exporter builds for every sample and hands to the writer. Before
  \<^verbatim>\<open>assignVelocityRanges\<close> runs, \<open>velLow\<close> and \<open>velHigh\<close> both hold the velocity hint
  extracted from the file name.
\<close>

record ExportZone =
  z_file :: string
  z_root :: int
  z_low :: int
  z_high :: int
  velLow :: int
  velHigh :: int

text \<open>
  The body of the loop over the roots, for the zones \<open>rootZones\<close> that share one root:
  sort by \<open>velLow\<close> (the language's sort is stable), give a single zone the full range, and
  otherwise distribute \<open>rangeSize = 128 / length\<close>. The quotient is not floored in the
  source; only the products are. The quotient, the products and the difference are computed
  in doubles.
\<close>

definition assignRootZones :: "ExportZone list \<Rightarrow> ExportZone list" where
  "assignRootZones zonesOfRoot =
     (let rootZones = sort_key velLow zonesOfRoot in
      if length rootZones = 1 then [(rootZones ! 0)\<lparr>velLow := 0, velHigh := 127\<rparr>]
      else
        let rangeSize = roundToDouble (128 / of_nat (length rootZones)) in
        map (\<lambda>i.
               let zone = (rootZones ! i)
                     \<lparr>velLow := \<lfloor>roundToDouble (of_nat i * rangeSize)\<rfloor>,
                      velHigh := \<lfloor>roundToDouble (roundToDouble ((of_nat i + 1) * rangeSize) - 1)\<rfloor>\<rparr>
               in if i = length rootZones - 1 then zone\<lparr>velHigh := 127\<rparr> else zone)
            [0 ..< length rootZones])"

text \<open>
  \<^verbatim>\<open>for (const root in zonesByRoot)\<close> visits the keys of the grouping object: the keys that are
  array indices (the non-negative roots) in ascending order first, then the other keys
  (negative roots) in the order in which they were first inserted.
\<close>

definition firstOccurrences :: "int list \<Rightarrow> int list" where
  "firstOccurrences rs = rev (remdups (rev rs))"

definition rootKeyOrder :: "int list \<Rightarrow> int list" where
  "rootKeyOrder rs =
     sort (remdups (filter (\<lambda>r. 0 \<le> r) rs)) @ firstOccurrences (filter (\<lambda>r. r < 0) rs)"

definition assignVelocityRanges :: "ExportZone list \<Rightarrow> ExportZone list" where
  "assignVelocityRanges zones =
     concat (map (\<lambda>r. assignRootZones (filter (\<lambda>z. z_root z = r) zones))
                 (rootKeyOrder (map z_root zones)))"

definition exampleZones3 :: "ExportZone list" where
  "exampleZones3 =
     [\<lparr> z_file = ''Piano_C3_hard.wav'', z_root = 48, z_low = 48, z_high = 48, velLow = 120, velHigh = 120 \<rparr>,
      \<lparr> z_file = ''Piano_C3_soft.wav'', z_root = 48, z_low = 48, z_high = 48, velLow = 40, velHigh = 40 \<rparr>,
      \<lparr> z_file = ''Piano_C3_med.wav'', z_root = 48, z_low = 48, z_high = 48, velLow = 80, velHigh = 80 \<rparr>]"



subsection \<open>The velocity bands\<close>

text \<open>
  The two bounds of the loop body, written over the number \<open>M\<close> of zones of the root and the
  index alone; \<open>assignRootZones_nth\<close> ties them to the code.
\<close>

definition bandLow :: "nat \<Rightarrow> nat \<Rightarrow> int" where
  "bandLow M i = \<lfloor>roundToDouble (of_nat i * roundToDouble (128 / of_nat M))\<rfloor>"

definition bandHigh :: "nat \<Rightarrow> nat \<Rightarrow> int" where
  "bandHigh M i = \<lfloor>roundToDouble (roundToDouble ((of_nat i + 1) * roundToDouble (128 / of_nat M)) - 1)\<rfloor>"

lemma assignRootZones_length: "zs \<noteq> [] \<Longrightarrow> length (assignRootZones zs) = length zs"
  by (simp add: assignRootZones_def Let_def)

lemma assignRootZones_single:
  "length zs = 1 \<Longrightarrow> assignRootZones zs = [(zs ! 0)\<lparr>velLow := 0, velHigh := 127\<rparr>]"
  by (cases zs) (simp_all add: assignRootZones_def Let_def)

lemma assignRootZones_nth:
  assumes "2 \<le> length zs" "i < length zs"
  shows "assignRootZones zs ! i =
           (sort_key velLow zs ! i)
             \<lparr>velLow := bandLow (length zs) i,
              velHigh := (if i = length zs - 1 then 127 else bandHigh (length zs) i)\<rparr>"
  using assms by (simp add: assignRootZones_def bandLow_def bandHigh_def Let_def)

text \<open>The rounded quotient and the exact products of the loop.\<close>

lemma rangeSize_facts:
  assumes "1 \<le> M"
  defines "c \<equiv> (128 :: rat) / of_nat M"
  defines "r \<equiv> roundToDouble c"
  shows "0 < c" and "0 < r" and "\<bar>r - c\<bar> \<le> c / 2 ^ 53"
proof -
  show c: "0 < c" using assms(1) by (simp add: c_def)
  have "0 < (2 :: rat) powi exponentOf c" by simp
  then show "0 < r" using roundToDouble_bounds(1)[OF c] unfolding r_def by linarith
  show "\<bar>r - c\<bar> \<le> c / 2 ^ 53" unfolding r_def using c by (rule roundToDouble_error)
qed

lemma product_facts:
  assumes "1 \<le> M" "i \<le> M"
  defines "c \<equiv> (128 :: rat) / of_nat M"
  defines "r \<equiv> roundToDouble c"
  defines "x \<equiv> of_nat i * c"
  defines "q \<equiv> of_nat i * r"
  defines "p \<equiv> roundToDouble q"
  shows "0 \<le> x" and "x \<le> 128" and "0 \<le> q" and "q < 129" and "\<bar>p - x\<bar> \<le> 257 / 2 ^ 53"
    and "\<bar>p - q\<bar> \<le> 129 / 2 ^ 53"
proof -
  note rf = rangeSize_facts[OF assms(1), folded c_def r_def]
  show x0: "0 \<le> x" using rf(1) by (simp add: x_def)
  have "of_nat i * c \<le> of_nat M * c" using assms(2) rf(1) by (intro mult_right_mono) simp_all
  then show x128: "x \<le> 128" using assms(1) by (simp add: x_def c_def)
  show q0: "0 \<le> q" using rf(2) by (simp add: q_def)
  have "q - x = of_nat i * (r - c)" by (simp add: q_def x_def algebra_simps)
  then have "\<bar>q - x\<bar> = of_nat i * \<bar>r - c\<bar>" by (simp add: abs_mult)
  also have "\<dots> \<le> of_nat i * (c / 2 ^ 53)" using rf(3) by (intro mult_left_mono) simp_all
  also have "\<dots> = x / 2 ^ 53" by (simp add: x_def)
  also have "\<dots> \<le> 128 / 2 ^ 53" using x128 by (simp add: divide_right_mono)
  finally have qx: "\<bar>q - x\<bar> \<le> 128 / 2 ^ 53" .
  have small: "(128 :: rat) / 2 ^ 53 < 1" by simp
  have "q - x \<le> \<bar>q - x\<bar>" by simp
  then show q129: "q < 129" using qx x128 small by linarith
  show pq: "\<bar>p - q\<bar> \<le> 129 / 2 ^ 53"
  proof (cases "q = 0")
    case True
    then show ?thesis by (simp add: p_def)
  next
    case False
    then have "0 < q" using q0 by simp
    then have "\<bar>p - q\<bar> \<le> q / 2 ^ 53" unfolding p_def by (rule roundToDouble_error)
    also have "\<dots> \<le> 129 / 2 ^ 53" using q129 by (simp add: divide_right_mono)
    finally show ?thesis .
  qed
  have "\<bar>p - x\<bar> \<le> \<bar>p - q\<bar> + \<bar>q - x\<bar>" by linarith
  then show "\<bar>p - x\<bar> \<le> 257 / 2 ^ 53" using pq qx by linarith
qed

lemma bandLow_0 [simp]: "bandLow M 0 = 0"
  by (simp add: bandLow_def)


lemma bandHigh_eq:
  assumes "1 \<le> M" "i < M"
  shows "bandHigh M i = bandLow M (Suc i) - 1"
proof -
  note pf = product_facts[OF assms(1), of "Suc i"]
  have "0 \<le> of_nat (Suc i) * roundToDouble (128 / of_nat M)"
    and "of_nat (Suc i) * roundToDouble (128 / of_nat M) < 129"
    using pf(3,4) assms(2) by simp_all
  then have "0 \<le> (of_nat i + 1) * roundToDouble (128 / of_nat M)"
    and "(of_nat i + 1) * roundToDouble (128 / of_nat M) < 2 ^ 53"
    by (simp_all add: algebra_simps)
  from floor_roundToDouble_minus_one[OF this] show ?thesis
    by (simp add: bandHigh_def bandLow_def algebra_simps)
qed




text \<open>
  The low bound in whole numbers: it is \<open>\<lfloor>128 i / M\<rfloor>\<close>, or one less; it is \<open>\<lfloor>128 i / M\<rfloor>\<close>
  whenever \<open>128 i / M\<close> is not a whole number.
\<close>

lemma bandLow_near:
  assumes "1 \<le> M" "M < 2 ^ 32" "i \<le> M"
  shows "(int i * 128) div int M - 1 \<le> bandLow M i"
    and "bandLow M i \<le> (int i * 128) div int M"
    and "\<not> M dvd i * 128 \<Longrightarrow> bandLow M i = (int i * 128) div int M"
proof -
  define d where "d = (int i * 128) div int M"
  define m where "m = (int i * 128) mod int M"
  define x :: rat where "x = of_nat i * (128 / of_nat M)"
  define p where "p = roundToDouble (of_nat i * roundToDouble (128 / of_nat M))"
  define \<delta> :: rat where "\<delta> = 257 / 2 ^ 53"
  have M: "0 < (of_nat M :: rat)" using assms(1) by simp
  have m: "0 \<le> m" "m < int M" using assms(1) by (simp_all add: m_def)
  have "int i * 128 = d * int M + m" by (simp add: d_def m_def)
  then have "(of_int (int i * 128) :: rat) = of_int (d * int M + m)" by (simp only:)
  then have "(of_nat i :: rat) * 128 = of_int d * of_nat M + of_int m" by simp
  then have x: "x = of_int d + of_int m / of_nat M"
    using M by (simp add: x_def field_simps)
  have "\<bar>p - x\<bar> \<le> \<delta>"
    using product_facts(5)[OF assms(1,3)] by (simp add: p_def x_def \<delta>_def)
  then have pl: "x - \<delta> \<le> p" and pu: "p \<le> x + \<delta>" by linarith+
  have "(of_nat M :: rat) < of_nat (2 ^ 32)" using assms(2) by (simp only: of_nat_less_iff)
  then have "(of_nat M :: rat) < 2 ^ 32" by simp
  then have "(of_nat M :: rat) * \<delta> < 2 ^ 32 * \<delta>" by (intro mult_strict_right_mono) (simp_all add: \<delta>_def)
  also have "\<dots> < 1" by (simp add: \<delta>_def)
  finally have "\<delta> < 1 / of_nat M" using M by (simp add: field_simps)
  then have inv: "\<delta> < 1 / of_nat M" "\<delta> < 1" using M assms(1)
    by (simp_all add: \<delta>_def)
  have frac0: "0 \<le> of_int m / (of_nat M :: rat)" using m(1) M by simp
  have "m \<le> int M - 1" using m(2) by simp
  then have "(of_int m :: rat) \<le> of_int (int M - 1)" by (simp only: of_int_le_iff)
  then have "(of_int m :: rat) \<le> of_nat M - 1" by simp
  then have "of_int m / (of_nat M :: rat) \<le> (of_nat M - 1) / of_nat M"
    using M by (intro divide_right_mono) simp_all
  also have "\<dots> = 1 - 1 / of_nat M" using M by (simp add: field_simps)
  finally have frac1: "of_int m / (of_nat M :: rat) \<le> 1 - 1 / of_nat M" .
  have "of_int d - 1 \<le> p" using pl x frac0 inv(2) by linarith
  then have "of_int (d - 1) \<le> p" by simp
  then show lo: "(int i * 128) div int M - 1 \<le> bandLow M i"
    unfolding bandLow_def p_def[symmetric] d_def[symmetric] by (simp only: le_floor_iff)
  have "p < of_int d + 1" using pu x frac1 inv(1) by linarith
  then have "p < of_int (d + 1)" by simp
  then have "\<lfloor>p\<rfloor> < d + 1" by (simp only: floor_less_iff)
  then show hi: "bandLow M i \<le> (int i * 128) div int M"
    unfolding bandLow_def p_def[symmetric] d_def[symmetric] by simp
  assume "\<not> M dvd i * 128"
  then have "\<not> int M dvd int (i * 128)" by (simp only: of_nat_dvd_iff not_False_eq_True)
  then have "m \<noteq> 0" by (simp add: m_def dvd_eq_mod_eq_0)
  then have "1 \<le> m" using m(1) by simp
  then have "(of_int 1 :: rat) \<le> of_int m" by (simp only: of_int_le_iff)
  then have "1 / (of_nat M :: rat) \<le> of_int m / of_nat M"
    using M by (intro divide_right_mono) simp_all
  then have "of_int d \<le> p" using pl x inv(1) by linarith
  then have "d \<le> \<lfloor>p\<rfloor>" by (simp only: le_floor_iff)
  then show "bandLow M i = (int i * 128) div int M"
    using hi unfolding bandLow_def p_def[symmetric] d_def[symmetric] by simp
qed

text \<open>When \<open>M\<close> divides 128 all the arithmetic is exact.\<close>

lemma bandLow_exact:
  assumes "1 \<le> M" "M dvd 128" "i \<le> M"
  shows "bandLow M i = int i * (128 div int M)"
proof -
  define d where "d = 128 div int M"
  have "int M dvd int 128" using assms(2) by (simp only: of_nat_dvd_iff)
  then have dM: "d * int M = 128" by (simp add: d_def)
  then have "(of_int (d * int M) :: rat) = of_int 128" by (simp only:)
  then have "(of_int d :: rat) * of_nat M = 128" by simp
  then have c: "(128 :: rat) / of_nat M = of_int d" using assms(1) by (simp add: field_simps)
  have d0: "0 \<le> d" using assms(1) by (simp add: d_def pos_imp_zdiv_nonneg_iff)
  have "d \<le> d * int M" using d0 assms(1) by (simp add: mult_le_cancel_left1)
  then have d128: "d \<le> 128" using dM by simp
  have r: "roundToDouble (of_int d) = of_int d" using d0 d128 by (intro roundToDouble_of_int) simp_all
  have "int i * d \<le> int M * d" using assms(3) d0 by (intro mult_right_mono) simp_all
  then have id128: "int i * d \<le> 128" using dM by (simp add: mult.commute)
  have id0: "0 \<le> int i * d" using d0 by simp
  have "roundToDouble (of_int (int i * d)) = of_int (int i * d)"
    using id0 id128 by (intro roundToDouble_of_int) simp_all
  moreover have "(of_nat i :: rat) * of_int d = of_int (int i * d)" by simp
  ultimately have "roundToDouble (of_nat i * of_int d) = of_int (int i * d)" by (simp only:)
  then have "\<lfloor>roundToDouble (of_nat i * of_int d)\<rfloor> = int i * d" by (simp only: floor_of_int)
  then show ?thesis unfolding bandLow_def c r d_def[symmetric] .
qed



text \<open>
  An example of the low bound that is one less than \<open>\<lfloor>128 i / M\<rfloor>\<close>: with 98 zones on a root
  the rounded quotient is a little below \<open>128 / 98\<close>, and 49 times it is rounded to a double
  below 64.
\<close>

lemma bandLow_98_49: "bandLow 98 49 = 63 \<and> (49 * 128) div (98 :: int) = 64"
  by code_simp

lemma assignVelocityRanges_example:
  "map (\<lambda>z. (z_file z, velLow z, velHigh z)) (assignVelocityRanges exampleZones3) =
     [(''Piano_C3_soft.wav'', 0, 41), (''Piano_C3_med.wav'', 42, 84), (''Piano_C3_hard.wav'', 85, 127)]"
  by code_simp

subsection \<open>The zones of one root in the result\<close>

lemma assignRootZones_root:
  assumes "z \<in> set (assignRootZones zs)"
  shows "z_root z \<in> z_root ` set zs"
proof (cases "length zs = 1")
  case True
  then have "z = (zs ! 0)\<lparr>velLow := 0, velHigh := 127\<rparr>"
    using assms assignRootZones_single[OF True] by simp
  moreover have "zs ! 0 \<in> set zs" using True by (intro nth_mem) simp
  ultimately show ?thesis by auto
next
  case False
  let ?sorted = "sort_key velLow zs"
  from assms False obtain i where i: "i < length zs"
    and z: "z_root z = z_root (?sorted ! i)"
    by (auto simp: assignRootZones_def Let_def split: if_splits)
  have "?sorted ! i \<in> set ?sorted" using i by (intro nth_mem) simp
  then have "?sorted ! i \<in> set zs" by simp
  then show ?thesis using z by auto
qed

lemma rootKeyOrder_set: "set (rootKeyOrder rs) = set rs"
  by (auto simp: rootKeyOrder_def firstOccurrences_def)

lemma rootKeyOrder_distinct: "distinct (rootKeyOrder rs)"
  by (auto simp: rootKeyOrder_def firstOccurrences_def)

lemma filter_concat_none:
  "(\<And>k. k \<in> set ks \<Longrightarrow> filter P (f k) = []) \<Longrightarrow> filter P (concat (map f ks)) = []"
  by (induction ks) simp_all

lemma filter_concat_select:
  assumes "filter P (f r) = f r"
  shows "distinct ks \<Longrightarrow> r \<in> set ks
    \<Longrightarrow> (\<And>k. k \<in> set ks \<Longrightarrow> k \<noteq> r \<Longrightarrow> filter P (f k) = [])
    \<Longrightarrow> filter P (concat (map f ks)) = f r"
proof (induction ks)
  case Nil
  then show ?case by simp
next
  case (Cons k ks)
  show ?case
  proof (cases "k = r")
    case True
    then have notin: "r \<notin> set ks" using Cons.prems(1) by simp
    have "filter P (concat (map f ks)) = []"
    proof (rule filter_concat_none)
      fix k' assume k': "k' \<in> set ks"
      then have "k' \<noteq> r" using notin by blast
      then show "filter P (f k') = []" using Cons.prems(3)[of k'] k' by simp
    qed
    then show ?thesis using True assms by simp
  next
    case False
    have head: "filter P (f k) = []" using Cons.prems(3)[of k] False by simp
    have d: "distinct ks" and r: "r \<in> set ks" using Cons.prems(1,2) False by auto
    have "filter P (concat (map f ks)) = f r"
    proof (rule Cons.IH[OF d r])
      fix k' assume "k' \<in> set ks" "k' \<noteq> r"
      then show "filter P (f k') = []" using Cons.prems(3)[of k'] by simp
    qed
    then show ?thesis using head by simp
  qed
qed

text \<open>
  The zones of root \<open>r\<close> in the result are what the body of the loop makes of the zones of
  root \<open>r\<close> in the input.
\<close>

lemma assignVelocityRanges_root:
  assumes "r \<in> z_root ` set zones"
  shows "filter (\<lambda>z. z_root z = r) (assignVelocityRanges zones)
         = assignRootZones (filter (\<lambda>z. z_root z = r) zones)"
proof -
  define f where "f k = assignRootZones (filter (\<lambda>z. z_root z = k) zones)" for k
  have root: "z_root z = k" if "z \<in> set (f k)" for z k
  proof -
    have "z_root z \<in> z_root ` set (filter (\<lambda>z. z_root z = k) zones)"
      using that unfolding f_def by (rule assignRootZones_root)
    then show ?thesis by auto
  qed
  have other: "filter (\<lambda>z. z_root z = r) (f k) = []" if "k \<noteq> r" for k
  proof -
    have "\<forall>z \<in> set (f k). \<not> z_root z = r" using root that by blast
    then show ?thesis by (simp only: filter_empty_conv)
  qed
  have same: "filter (\<lambda>z. z_root z = r) (f r) = f r"
  proof -
    have "\<forall>z \<in> set (f r). z_root z = r" using root by blast
    then show ?thesis by (simp only: filter_id_conv)
  qed
  have mem: "r \<in> set (rootKeyOrder (map z_root zones))"
    using assms by (simp add: rootKeyOrder_set)
  have "filter (\<lambda>z. z_root z = r) (concat (map f (rootKeyOrder (map z_root zones)))) = f r"
    using same rootKeyOrder_distinct mem other by (rule filter_concat_select)
  moreover have "f = (\<lambda>k. assignRootZones (filter (\<lambda>z. z_root z = k) zones))"
    by (rule ext) (simp add: f_def)
  ultimately show ?thesis by (simp add: assignVelocityRanges_def)
qed

lemma assignRootZones_bounds:
  assumes "2 \<le> length zs" and "length zs < 2 ^ 32" and "i < length zs"
  shows "let M = length zs;
             rangeSize = roundToDouble (128 / of_nat M);
             low = (\<lambda>j. \<lfloor>roundToDouble (of_nat j * rangeSize)\<rfloor>)
         in length (assignRootZones zs) = M \<and>
            assignRootZones zs ! i
              = (sort_key velLow zs ! i)
                  \<lparr>velLow := low i,
                   velHigh := (if i = M - 1 then 127
                               else \<lfloor>roundToDouble (roundToDouble ((of_nat i + 1) * rangeSize) - 1)\<rfloor>)\<rparr> \<and>
            \<lfloor>roundToDouble (roundToDouble ((of_nat i + 1) * rangeSize) - 1)\<rfloor> = low (i + 1) - 1 \<and>
            (\<forall>j \<le> M. (int j * 128) div int M - 1 \<le> low j \<and> low j \<le> (int j * 128) div int M \<and>
                      (\<not> M dvd j * 128 \<longrightarrow> low j = (int j * 128) div int M) \<and>
                      (M dvd 128 \<longrightarrow> low j = int j * (128 div int M)))"
proof -
  define M where "M = length zs"
  have M: "2 \<le> M" "M < 2 ^ 32" "i < M" "1 \<le> M" using assms by (simp_all add: M_def)
  have len: "length (assignRootZones zs) = M"
    using assms assignRootZones_length[of zs] by (cases zs) (auto simp: M_def)
  have nth: "assignRootZones zs ! i = (sort_key velLow zs ! i)
       \<lparr>velLow := bandLow M i, velHigh := (if i = M - 1 then 127 else bandHigh M i)\<rparr>"
    using assignRootZones_nth[OF assms(1,3)] by (simp add: M_def)
  have high: "bandHigh M i = bandLow M (i + 1) - 1"
    using bandHigh_eq[OF M(4,3)] by simp
  have low: "(int j * 128) div int M - 1 \<le> bandLow M j \<and> bandLow M j \<le> (int j * 128) div int M \<and>
             (\<not> M dvd j * 128 \<longrightarrow> bandLow M j = (int j * 128) div int M) \<and>
             (M dvd 128 \<longrightarrow> bandLow M j = int j * (128 div int M))" if "j \<le> M" for j
    using bandLow_near[OF M(4,2) that] bandLow_exact[OF M(4) _ that] by blast
  show ?thesis
    unfolding Let_def M_def[symmetric] bandLow_def[symmetric] bandHigh_def[symmetric]
    using len nth high low by blast
qed




text \<open>
  \<^bold>\<open>C4, as the claim states it, fails.\<close> With three samples on one root the claim's
  \<open>band_size\<close> is \<open>\<lfloor>128 / 3\<rfloor> = 42\<close>, so its second layer would end at 83 and its third would
  start at 84; the code multiplies by the unfloored quotient, ends the second at 84 and starts
  the third at \<open>\<lfloor>2 \<sqdot> 128 / 3\<rfloor> = 85\<close>.
\<close>

theorem velocity_band_counterexample:
  "length exampleZones3 = 3 \<and> 128 div (3 :: int) = 42 \<and>
   velHigh (assignVelocityRanges exampleZones3 ! 1) = 84 \<and> (1 + 1) * (42 :: int) - 1 = 83 \<and>
   velLow (assignVelocityRanges exampleZones3 ! 2) = 85 \<and> 2 * (42 :: int) = 84"
  by code_simp

text \<open>
  \<^bold>\<open>C4, amended.\<close> For \<open>M \<ge> 2\<close> samples sharing one root, sorted by extracted velocity
  ascending, layer \<open>i\<close> is the \<open>i\<close>-th sample of that order with
  \<open>low = \<lfloor>i \<sqdot> rangeSize\<rfloor>\<close> and \<open>high = \<lfloor>(i + 1) \<sqdot> rangeSize - 1\<rfloor>\<close>, where
  \<open>rangeSize = 128 / M\<close> is not floored and the arithmetic is that of doubles, except that the
  last layer's high is forced to 127. The high bound of a layer is one below the low bound of
  the next. In whole numbers the low bound of layer \<open>j\<close> is \<open>\<lfloor>128 j / M\<rfloor>\<close> or one less, and
  it is \<open>\<lfloor>128 j / M\<rfloor>\<close> whenever \<open>128 j / M\<close> is not a whole number. When \<open>M\<close> divides 128 the
  bounds are the claim's \<open>j \<sqdot> band_size\<close> and \<open>(j + 1) \<sqdot> band_size - 1\<close>. (An array of the
  language has fewer than \<open>2^32\<close> elements.)
\<close>

theorem velocity_layer_bounds:
  assumes "2 \<le> length (filter (\<lambda>z. z_root z = r) zones)"
    and "length (filter (\<lambda>z. z_root z = r) zones) < 2 ^ 32"
    and "i < length (filter (\<lambda>z. z_root z = r) zones)"
  shows "let group = filter (\<lambda>z. z_root z = r) zones;
             layers = filter (\<lambda>z. z_root z = r) (assignVelocityRanges zones);
             M = length group;
             rangeSize = roundToDouble (128 / of_nat M);
             low = (\<lambda>j. \<lfloor>roundToDouble (of_nat j * rangeSize)\<rfloor>)
         in length layers = M \<and>
            layers ! i
              = (sort_key velLow group ! i)
                  \<lparr>velLow := low i,
                   velHigh := (if i = M - 1 then 127
                               else \<lfloor>roundToDouble (roundToDouble ((of_nat i + 1) * rangeSize) - 1)\<rfloor>)\<rparr> \<and>
            \<lfloor>roundToDouble (roundToDouble ((of_nat i + 1) * rangeSize) - 1)\<rfloor> = low (i + 1) - 1 \<and>
            (\<forall>j \<le> M. (int j * 128) div int M - 1 \<le> low j \<and> low j \<le> (int j * 128) div int M \<and>
                      (\<not> M dvd j * 128 \<longrightarrow> low j = (int j * 128) div int M) \<and>
                      (M dvd 128 \<longrightarrow> low j = int j * (128 div int M)))"
proof -
  let ?group = "filter (\<lambda>z. z_root z = r) zones"
  have "?group \<noteq> []" using assms(1) by auto
  then obtain z where "z \<in> set ?group" by (cases ?group) auto
  then have "r \<in> z_root ` set zones" by auto
  then have eq: "filter (\<lambda>z. z_root z = r) (assignVelocityRanges zones) = assignRootZones ?group"
    by (rule assignVelocityRanges_root)
  show ?thesis
    using assignRootZones_bounds[OF assms] unfolding Let_def eq .
qed

text \<open>The theorem at three samples on one root, middle layer: \<open>[42, 84]\<close>, from
  \<open>\<lfloor>128 / 3\<rfloor> = 42\<close> and \<open>\<lfloor>256 / 3\<rfloor> = 85\<close>.\<close>

theorem velocity_layer_bounds_witness:
  "2 \<le> length (filter (\<lambda>z. z_root z = 48) exampleZones3) \<and>
   length (filter (\<lambda>z. z_root z = 48) exampleZones3) < 2 ^ 32 \<and>
   1 < length (filter (\<lambda>z. z_root z = 48) exampleZones3) \<and>
   z_file (filter (\<lambda>z. z_root z = 48) (assignVelocityRanges exampleZones3) ! 1) = ''Piano_C3_med.wav'' \<and>
   velLow (filter (\<lambda>z. z_root z = 48) (assignVelocityRanges exampleZones3) ! 1) = 42 \<and>
   velHigh (filter (\<lambda>z. z_root z = 48) (assignVelocityRanges exampleZones3) ! 1) = 84"
proof -
  have group: "filter (\<lambda>z. z_root z = 48) exampleZones3 = exampleZones3"
    by (simp add: exampleZones3_def)
  have len: "length exampleZones3 = 3" by (simp add: exampleZones3_def)
  have h1: "2 \<le> length (filter (\<lambda>z. z_root z = 48) exampleZones3)"
    and h2: "length (filter (\<lambda>z. z_root z = 48) exampleZones3) < 2 ^ 32"
    and h3: "1 < length (filter (\<lambda>z. z_root z = 48) exampleZones3)"
    by (simp_all add: group len)
  have srt: "z_file (sort_key velLow exampleZones3 ! 1) = ''Piano_C3_med.wav''"
    by (simp add: exampleZones3_def)
  define low where "low = (\<lambda>j. \<lfloor>roundToDouble (of_nat j * roundToDouble (128 / of_nat (3::nat)))\<rfloor>)"
  from velocity_layer_bounds[OF h1 h2 h3]
  have layer: "filter (\<lambda>z. z_root z = 48) (assignVelocityRanges exampleZones3) ! 1
      = (sort_key velLow exampleZones3 ! 1)
          \<lparr>velLow := low 1,
           velHigh := \<lfloor>roundToDouble (roundToDouble ((of_nat 1 + 1) * roundToDouble (128 / of_nat (3::nat))) - 1)\<rfloor>\<rparr>"
    and high: "\<lfloor>roundToDouble (roundToDouble ((of_nat 1 + 1) * roundToDouble (128 / of_nat (3::nat))) - 1)\<rfloor> = low (1 + 1) - 1"
    and char: "\<forall>j \<le> (3::nat). \<not> 3 dvd j * 128 \<longrightarrow> low j = (int j * 128) div int 3"
    unfolding Let_def group len low_def by simp_all
  from char have "low 1 = 42" and "low 2 = 85"
    by (simp_all)
  then have "low (Suc 0) = 42" and "low (Suc (Suc 0)) = 85"
    by (simp_all add: numeral_2_eq_2)
  with layer high srt h1 h2 h3 show ?thesis by simp
qed



section \<open>The instrument validator (instrument-validator)\<close>

subsection \<open>Note names in file names\<close>

definition isNoteLetter :: "char \<Rightarrow> bool" where
  "isNoteLetter c = (c \<in> set ''ABCDEFGabcdefg'')"

definition isDigit :: "char \<Rightarrow> bool" where
  "isDigit c = (c \<in> set ''0123456789'')"

definition digitValue :: "char \<Rightarrow> int" where
  "digitValue c = (case map_of (zip ''0123456789'' [0, 1, 2, 3, 4, 5, 6, 7, 8, 9]) c of
                     Some d \<Rightarrow> d | None \<Rightarrow> 0)"

text \<open>\<^verbatim>\<open>toUpperCase\<close> on the characters a note name can contain.\<close>

definition toUpperChar :: "char \<Rightarrow> char" where
  "toUpperChar c = (case map_of (zip ''abcdefghijklmnopqrstuvwxyz'' ''ABCDEFGHIJKLMNOPQRSTUVWXYZ'') c of
                      Some u \<Rightarrow> u | None \<Rightarrow> c)"

text \<open>
  The pattern \<^verbatim>\<open>/([A-Ga-g][#b]?[0-9])/\<close> tried at the start of a string: the optional
  accidental is greedy, and when the text has an accidental that no digit follows, dropping
  the accidental does not help, because the character after the letter is then not a digit.
\<close>

fun noteAt :: "string \<Rightarrow> string option" where
  "noteAt (c1 # c2 # c3 # rest) =
     (if isNoteLetter c1 \<and> (c2 = CHR ''#'' \<or> c2 = CHR ''b'') \<and> isDigit c3 then Some [c1, c2, c3]
      else if isNoteLetter c1 \<and> isDigit c2 then Some [c1, c2]
      else None)"
| "noteAt [c1, c2] = (if isNoteLetter c1 \<and> isDigit c2 then Some [c1, c2] else None)"
| "noteAt _ = None"

text \<open>\<^verbatim>\<open>exec\<close> returns the leftmost match.\<close>

fun findNote :: "string \<Rightarrow> string option" where
  "findNote [] = None"
| "findNote (c # cs) = (case noteAt (c # cs) of Some m \<Rightarrow> Some m | None \<Rightarrow> findNote cs)"

text \<open>
  The pattern of \<^verbatim>\<open>noteToMidi\<close>, \<^verbatim>\<open>/([A-G][#b]?)([0-9])/i\<close>, is case-insensitive: its
  accidental class also accepts \<open>B\<close>. The result is the pair of the two groups.
\<close>

fun noteOctaveAt :: "string \<Rightarrow> (string \<times> char) option" where
  "noteOctaveAt (c1 # c2 # c3 # rest) =
     (if isNoteLetter c1 \<and> (c2 = CHR ''#'' \<or> c2 = CHR ''b'' \<or> c2 = CHR ''B'') \<and> isDigit c3
      then Some ([c1, c2], c3)
      else if isNoteLetter c1 \<and> isDigit c2 then Some ([c1], c2)
      else None)"
| "noteOctaveAt [c1, c2] = (if isNoteLetter c1 \<and> isDigit c2 then Some ([c1], c2) else None)"
| "noteOctaveAt _ = None"

fun findNoteOctave :: "string \<Rightarrow> (string \<times> char) option" where
  "findNoteOctave [] = None"
| "findNoteOctave (c # cs) =
     (case noteOctaveAt (c # cs) of Some m \<Rightarrow> Some m | None \<Rightarrow> findNoteOctave cs)"

definition noteMap :: "string \<rightharpoonup> int" where
  "noteMap = map_of
     [(''C'', 0), (''C#'', 1), (''Db'', 1), (''D'', 2), (''D#'', 3), (''Eb'', 3), (''E'', 4),
      (''F'', 5), (''F#'', 6), (''Gb'', 6), (''G'', 7), (''G#'', 8), (''Ab'', 8), (''A'', 9),
      (''A#'', 10), (''Bb'', 10), (''B'', 11)]"

text \<open>
  \<^verbatim>\<open>(octave + 1) * 12 + (noteMap[note] || 0)\<close>: a name that is not a key of the table counts
  as 0, and so does the key \<open>C\<close>, whose entry is 0.
\<close>

definition noteToMidi :: "string \<Rightarrow> int" where
  "noteToMidi noteName =
     (case findNoteOctave noteName of
        None \<Rightarrow> - 1
      | Some (n, d) \<Rightarrow>
          let note = map toUpperChar n; octave = digitValue d
          in (octave + 1) * 12 + (case noteMap note of Some v \<Rightarrow> v | None \<Rightarrow> 0))"

definition extractPitchFromFilename :: "string \<Rightarrow> int option" where
  "extractPitchFromFilename filename =
     (case findNote filename of
        Some m \<Rightarrow> Some (noteToMidi (map toUpperChar m))
      | None \<Rightarrow> None)"

subsection \<open>Velocity layer check\<close>

record Layer =
  layerSample :: string
  rootKey :: "int option"
  lowKey :: "int option"
  highKey :: "int option"
  layerLowVelocity :: "int option"
  layerHighVelocity :: "int option"

record VelocityCheckResult =
  valid :: bool
  vc_issues :: "string list"

definition overlaps :: "Layer \<Rightarrow> Layer \<Rightarrow> bool" where
  "overlaps layerA layerB =
     (case (layerLowVelocity layerA, layerHighVelocity layerA,
            layerLowVelocity layerB, layerHighVelocity layerB) of
        (Some aLow, Some aHigh, Some bLow, Some bHigh) \<Rightarrow> aLow \<le> bHigh \<and> bLow \<le> aHigh
      | _ \<Rightarrow> False)"

text \<open>
  The inner loop \<^verbatim>\<open>for (let j = i + 1; ...)\<close> for one \<open>layerA\<close> over the layers after it: a
  pair with an undefined bound is skipped; the first overlapping pair pushes the issue and
  leaves this loop with \<^verbatim>\<open>break\<close>. The result says whether the issue was pushed.
\<close>

fun overlapsLater :: "Layer \<Rightarrow> Layer list \<Rightarrow> bool" where
  "overlapsLater layerA [] = False"
| "overlapsLater layerA (layerB # rest) =
     (if overlaps layerA layerB then True else overlapsLater layerA rest)"

text \<open>
  The outer loop \<^verbatim>\<open>for (let i = 0; ...)\<close>: the \<^verbatim>\<open>break\<close> above ends the inner loop only,
  so the outer loop goes on with the next \<open>i\<close>.
\<close>

fun overlapLoop :: "string \<Rightarrow> Layer list \<Rightarrow> VelocityCheckResult \<Rightarrow> VelocityCheckResult" where
  "overlapLoop key [] result = result"
| "overlapLoop key (layerA # rest) result =
     overlapLoop key rest
       (if overlapsLater layerA rest
        then result\<lparr>valid := False,
                    vc_issues := vc_issues result @ [''Overlapping velocity ranges for root key '' @ key]\<rparr>
        else result)"

definition checkRootLayers :: "string \<Rightarrow> Layer list \<Rightarrow> VelocityCheckResult \<Rightarrow> VelocityCheckResult" where
  "checkRootLayers key rootLayers result =
     (if length rootLayers > 1 then
        let missingVelocity =
              list_ex (\<lambda>layer. layerLowVelocity layer = None \<or> layerHighVelocity layer = None) rootLayers;
            result1 =
              (if missingVelocity
               then result\<lparr>valid := False,
                           vc_issues := vc_issues result @
                             [''Missing velocity range for some layers with root key '' @ key]\<rparr>
               else result)
        in overlapLoop key rootLayers result1
      else result)"

text \<open>
  Layers without a root key are left out of the grouping; the groups are visited in the key
  order of the grouping object (\<open>rootKeyOrder\<close>).
\<close>

definition parseVelocityLayers :: "Layer list \<Rightarrow> VelocityCheckResult" where
  "parseVelocityLayers layers =
     (let keyed = filter (\<lambda>layer. rootKey layer \<noteq> None) layers;
          keys = rootKeyOrder (map (\<lambda>layer. the (rootKey layer)) keyed)
      in foldl (\<lambda>result k. checkRootLayers (showInt k) (filter (\<lambda>layer. rootKey layer = Some k) keyed) result)
               \<lparr>valid = True, vc_issues = []\<rparr> keys)"

subsection \<open>validateInstrument\<close>

datatype Status = Valid | Invalid

record ValidationReport =
  status :: Status
  issues :: "string list"
  samplesValidated :: nat

text \<open>
  A sample of the sample manager: its name and its decoded audio, if any. The audio buffer
  itself is opaque here (\<open>'b\<close>); only the pitch detector reads it.
\<close>

record 'b Sample =
  sampleName :: string
  buffer :: "'b option"

text \<open>
  The pitch detector is a parameter: for a buffer it throws (\<open>Inl\<close> with the text of the error),
  finds no pitch (\<open>Inr None\<close>) or returns a pitch, of which the validator reads the MIDI note
  only (\<open>Inr (Some midiNote)\<close>).
\<close>

type_synonym 'b detector = "'b \<Rightarrow> string + int option"

text \<open>
  One turn of the loop over the samples. The state is the report and the layers collected so
  far.
\<close>

definition validateSample ::
  "'b detector \<Rightarrow> 'b Sample \<Rightarrow> ValidationReport \<times> Layer list \<Rightarrow> ValidationReport \<times> Layer list" where
  "validateSample detectPitch sample st =
     (let report = fst st; layers = snd st in
      case buffer sample of
        None \<Rightarrow>
          (report\<lparr>status := Invalid,
                  issues := issues report @ [''Sample '' @ sampleName sample @ '' has no audio data.'']\<rparr>,
           layers)
      | Some buf \<Rightarrow>
          (case detectPitch buf of
             Inl error \<Rightarrow>
               (report\<lparr>status := Invalid,
                       issues := issues report @
                         [''Error analyzing sample '' @ sampleName sample @ '': '' @ error]\<rparr>,
                layers)
           | Inr pitchInfo \<Rightarrow>
               let layer = \<lparr>layerSample = sampleName sample, rootKey = None, lowKey = None,
                            highKey = None, layerLowVelocity = None, layerHighVelocity = None\<rparr>;
                   (layer1, report1) =
                     (case pitchInfo of
                        Some midi \<Rightarrow> (layer\<lparr>rootKey := Some midi\<rparr>, report)
                      | None \<Rightarrow>
                          (case extractPitchFromFilename (sampleName sample) of
                             Some extractedPitch \<Rightarrow>
                               if extractedPitch \<noteq> 0 then (layer\<lparr>rootKey := Some extractedPitch\<rparr>, report)
                               else (layer, report\<lparr>issues := issues report @
                                       [''Pitch not detected in: '' @ sampleName sample]\<rparr>)
                           | None \<Rightarrow>
                               (layer, report\<lparr>issues := issues report @
                                  [''Pitch not detected in: '' @ sampleName sample]\<rparr>)))
               in (report1\<lparr>samplesValidated := samplesValidated report1 + 1\<rparr>, layers @ [layer1])))"

text \<open>
  The function reads the samples from the sample manager, whatever instrument id it is given;
  here they are its argument.
\<close>

definition validateInstrument :: "'b detector \<Rightarrow> 'b Sample list \<Rightarrow> ValidationReport" where
  "validateInstrument detectPitch samples =
     (let report = \<lparr>status = Valid, issues = [], samplesValidated = 0\<rparr> in
      if length samples = 0
      then report\<lparr>status := Invalid, issues := issues report @ [''No samples found in instrument.'']\<rparr>
      else
        let (report1, layers) = foldl (\<lambda>st sample. validateSample detectPitch sample st) (report, []) samples;
            velocityCheck = parseVelocityLayers layers
        in if \<not> valid velocityCheck
           then report1\<lparr>status := Invalid, issues := issues report1 @ vc_issues velocityCheck\<rparr>
           else report1)"

subsection \<open>Examples and invariants of the validator\<close>

text \<open>The note pushed for a sample whose pitch is neither detected nor found in its name.\<close>

definition isPitchNote :: "string \<Rightarrow> bool" where
  "isPitchNote x = (take (length ''Pitch not detected in: '') x = ''Pitch not detected in: '')"

definition exampleLayer :: "string \<Rightarrow> int \<Rightarrow> int \<Rightarrow> int \<Rightarrow> Layer" where
  "exampleLayer name r lo hi =
     \<lparr>layerSample = name, rootKey = Some r, lowKey = None, highKey = None,
      layerLowVelocity = Some lo, layerHighVelocity = Some hi\<rparr>"

text \<open>The velocity check keeps \<open>valid\<close> in step with its issues, none of which is a pitch note.\<close>

definition vcInv :: "VelocityCheckResult \<Rightarrow> bool" where
  "vcInv r = ((valid r \<longleftrightarrow> vc_issues r = []) \<and> list_all (\<lambda>x. \<not> isPitchNote x) (vc_issues r))"

text \<open>What the loop over the samples keeps true of the report.\<close>

definition repInv :: "ValidationReport \<Rightarrow> bool" where
  "repInv r = (status r = Valid \<longleftrightarrow> list_all isPitchNote (issues r))"




definition silentDetector :: "nat detector" where
  "silentDetector buf = Inr None"

definition kickSample :: "nat Sample" where
  "kickSample = \<lparr>sampleName = ''kick.wav'', buffer = Some 0\<rparr>"

lemma extractPitchFromFilename_examples:
  "extractPitchFromFilename ''Piano_C3.wav'' = Some 48"
  "extractPitchFromFilename ''Piano_F#2_soft.wav'' = Some 42"
  "extractPitchFromFilename ''kick.wav'' = None"
  by code_simp+

text \<open>
  The octave digit goes up to 9, so the note names \<^verbatim>\<open>G#9\<close> to \<^verbatim>\<open>B9\<close> give numbers above 127.
  The sample mapper (sample-mapper.ts) computes the note of a file name in the same way.
\<close>

lemma extractPitchFromFilename_above_127: "extractPitchFromFilename ''Piano_A9.wav'' = Some 129"
  by code_simp

lemma overlapLoop_inv: "vcInv r \<Longrightarrow> vcInv (overlapLoop key ls r)"
  by (induction ls arbitrary: r) (auto simp: vcInv_def isPitchNote_def)

lemma checkRootLayers_inv:
  assumes "vcInv r"
  shows "vcInv (checkRootLayers key ls r)"
proof -
  have "vcInv (r\<lparr>valid := False,
                   vc_issues := vc_issues r @
                     [''Missing velocity range for some layers with root key '' @ key]\<rparr>)"
    using assms by (simp add: vcInv_def isPitchNote_def)
  then show ?thesis
    using assms by (simp add: checkRootLayers_def Let_def overlapLoop_inv)
qed

lemma foldl_inv:
  assumes "P s" "\<And>s x. P s \<Longrightarrow> P (f s x)"
  shows "P (foldl f s xs)"
  using assms(1) by (induction xs arbitrary: s) (auto intro: assms(2))

lemma parseVelocityLayers_inv: "vcInv (parseVelocityLayers layers)"
  unfolding parseVelocityLayers_def Let_def
proof (rule foldl_inv[where P = vcInv])
  show "vcInv \<lparr>valid = True, vc_issues = []\<rparr>" by (simp add: vcInv_def)
qed (rule checkRootLayers_inv)

lemma validateSample_inv: "repInv (fst st) \<Longrightarrow> repInv (fst (validateSample dp s st))"
  unfolding validateSample_def Let_def repInv_def
  by (auto simp: isPitchNote_def split: option.splits sum.splits prod.splits)

lemma validateSamples_inv:
  assumes "repInv (fst st)"
  shows "repInv (fst (foldl (\<lambda>st sample. validateSample dp sample st) st samples))"
  by (rule foldl_inv[where P = "\<lambda>st. repInv (fst st)"]) (auto intro: assms validateSample_inv)

subsection \<open>The overlap issue\<close>








text \<open>
  Given velocity bounds, which no caller supplies, the outer loop of the check would go on
  after the \<^verbatim>\<open>break\<close> of the inner one: three layers of one root that all span \<open>[0, 127]\<close> give
  the issue twice.
\<close>

lemma parseVelocityLayers_three_layers:
  "parseVelocityLayers
     [exampleLayer ''a.wav'' 60 0 127, exampleLayer ''b.wav'' 60 0 127, exampleLayer ''c.wav'' 60 0 127]
   = \<lparr>valid = False,
      vc_issues = [''Overlapping velocity ranges for root key 60'',
                   ''Overlapping velocity ranges for root key 60'']\<rparr>"
  by code_simp

text \<open>
  \<^bold>\<open>C9, as the claim states it, fails.\<close> A sample that has audio, for which the detector finds
  no pitch and whose name holds no note name, adds the issue "Pitch not detected in: ..." and
  leaves the status alone: the report is valid with one issue.
\<close>

theorem status_valid_with_issue_counterexample:
  "status (validateInstrument silentDetector [kickSample]) = Valid \<and>
   issues (validateInstrument silentDetector [kickSample]) = [''Pitch not detected in: kick.wav''] \<and>
   samplesValidated (validateInstrument silentDetector [kickSample]) = 1"
  by code_simp

text \<open>
  \<^bold>\<open>C9, amended.\<close> For every input, the status of the validation report is "valid" if and
  only if every issue of its list is a "Pitch not detected in: ..." note. So a report with no
  issue is valid, and any other issue (no samples, no audio data, an analysis error, a missing
  or an overlapping velocity range) makes it invalid; the pitch note alone does not.
\<close>

theorem status_valid_iff_only_pitch_notes:
  "status (validateInstrument detectPitch samples) = Valid \<longleftrightarrow>
     list_all isPitchNote (issues (validateInstrument detectPitch samples))"
proof (cases "samples = []")
  case True
  then show ?thesis by (simp add: validateInstrument_def isPitchNote_def)
next
  case False
  define st where "st = foldl (\<lambda>st sample. validateSample detectPitch sample st)
                          (\<lparr>status = Valid, issues = [], samplesValidated = 0\<rparr>, []) samples"
  have inv: "repInv (fst st)"
    unfolding st_def by (rule validateSamples_inv) (simp add: repInv_def)
  have vc: "vcInv (parseVelocityLayers (snd st))" by (rule parseVelocityLayers_inv)
  show ?thesis
  proof (cases "valid (parseVelocityLayers (snd st))")
    case True
    then show ?thesis using False inv
      by (cases st) (simp add: validateInstrument_def Let_def st_def[symmetric] repInv_def)
  next
    case nv: False
    then obtain x where "x \<in> set (vc_issues (parseVelocityLayers (snd st)))" "\<not> isPitchNote x"
      using vc by (cases "vc_issues (parseVelocityLayers (snd st))") (auto simp: vcInv_def)
    then have "\<not> list_all isPitchNote (vc_issues (parseVelocityLayers (snd st)))"
      by (auto simp: list_all_iff)
    then show ?thesis using False nv
      by (cases st) (simp add: validateInstrument_def Let_def st_def[symmetric])
  qed
qed

section \<open>The MIDI decoder (midi-converter)\<close>

type_synonym byte = "8 word"

text \<open>
  The events of a track. The source builds one object literal per kind of event, with a
  \<^verbatim>\<open>type\<close> string (and a \<^verbatim>\<open>subtype\<close> string for meta events) and the fields of that kind; each
  constructor below is one of these literals, its arguments the fields in the order of the
  source, the delta time first. A data byte read past the end of the track is \<^verbatim>\<open>undefined\<close> in
  the source and \<open>None\<close> here. The denominator of a time signature is \<^verbatim>\<open>Math.pow(2, b)\<close>, which
  is not a number when the byte \<open>b\<close> is missing: \<open>None\<close> stands for that value too. Text is
  kept as the bytes of the event.
\<close>

datatype MIDIEvent =
    NoteOff int int "int option" "int option"
  | NoteOn int int "int option" "int option"
  | NoteAftertouch int int "int option" "int option"
  | Controller int int "int option" "int option"
  | ProgramChange int int "int option"
  | ChannelAftertouch int int "int option"
  | PitchBend int int int
  | MetaText int string
  | MetaTrackName int string
  | MetaTempo int int
  | MetaTimeSignature int "int option" "int option"
  | MetaKeySignature int "int option" "int option"
  | MetaEndOfTrack int
  | MetaOther int "int option" "byte list"

text \<open>\<^verbatim>\<open>data[pos]\<close> on a byte array: \<^verbatim>\<open>undefined\<close> outside of it.\<close>

definition byteAt :: "byte list \<Rightarrow> int \<Rightarrow> byte option" where
  "byteAt data pos = (if 0 \<le> pos \<and> pos < int (length data) then Some (data ! nat pos) else None)"

definition numAt :: "byte list \<Rightarrow> int \<Rightarrow> int option" where
  "numAt data pos = map_option uint (byteAt data pos)"

text \<open>
  \<^verbatim>\<open>data.slice(begin, end)\<close>: a negative index counts from the end, both are clamped to the
  array, and an end before the begin gives the empty array.
\<close>

definition sliceIndex :: "nat \<Rightarrow> int \<Rightarrow> nat" where
  "sliceIndex len k = (if k < 0 then nat (max (int len + k) 0) else nat (min k (int len)))"

definition slice :: "byte list \<Rightarrow> int \<Rightarrow> int \<Rightarrow> byte list" where
  "slice data begin end =
     (let b = sliceIndex (length data) begin; e = sliceIndex (length data) end
      in take (e - b) (drop b data))"

text \<open>
  A variable-length quantity, the loop
  \<^verbatim>\<open>do { byte = data[pos++]; n = (n << 7) | (byte & 0x7f) } while (byte & 0x80)\<close>.
  The shift and the or work on 32-bit signed integers, so a quantity of five bytes or more
  wraps around. A missing byte contributes 0 and ends the loop. The result is the quantity
  and the position after it.
\<close>

function readVarLen :: "byte list \<Rightarrow> int \<Rightarrow> 32 word \<Rightarrow> int \<times> int" where
  "readVarLen data pos n =
     (case byteAt data pos of
        None \<Rightarrow> (sint (push_bit 7 n), pos + 1)
      | Some byte \<Rightarrow>
          let n' = push_bit 7 n OR ucast (byte AND 0x7f) in
          if byte AND 0x80 \<noteq> 0 then readVarLen data (pos + 1) n' else (sint n', pos + 1))"
  by pat_completeness auto
termination
  by (relation "measure (\<lambda>(data, pos, n). nat (int (length data) - pos))")
     (auto simp: byteAt_def split: if_splits)

declare readVarLen.simps [simp del]

text \<open>
  The status byte: a byte without its top bit (or no byte at all) is data, and the event
  takes the running status; otherwise the byte is consumed and becomes the running status.
  The result is the event type, the position after it and the new running status.
\<close>

definition readStatus :: "byte list \<Rightarrow> int \<Rightarrow> byte \<Rightarrow> byte \<times> int \<times> byte" where
  "readStatus data pos runningStatus =
     (case byteAt data pos of
        None \<Rightarrow> (runningStatus, pos, runningStatus)
      | Some eventType \<Rightarrow>
          if eventType AND 0x80 = 0 then (runningStatus, pos, runningStatus)
          else (eventType, pos + 1, eventType))"

text \<open>The meta event whose type byte and data have been read.\<close>

definition metaEvent :: "int \<Rightarrow> int option \<Rightarrow> byte list \<Rightarrow> MIDIEvent" where
  "metaEvent deltaTime metaType metaData =
     (if metaType = Some 0x01 then MetaText deltaTime (map (\<lambda>b. char_of (unat b)) metaData)
      else if metaType = Some 0x03 then MetaTrackName deltaTime (map (\<lambda>b. char_of (unat b)) metaData)
      else if metaType = Some 0x51 then
        MetaTempo deltaTime
          (let b0 = (case numAt metaData 0 of Some b \<Rightarrow> b | None \<Rightarrow> 0);
               b1 = (case numAt metaData 1 of Some b \<Rightarrow> b | None \<Rightarrow> 0);
               b2 = (case numAt metaData 2 of Some b \<Rightarrow> b | None \<Rightarrow> 0)
           in push_bit 16 b0 OR push_bit 8 b1 OR b2)
      else if metaType = Some 0x58 then
        MetaTimeSignature deltaTime (numAt metaData 0)
          (map_option (\<lambda>b. 2 ^ nat b) (numAt metaData 1))
      else if metaType = Some 0x59 then
        MetaKeySignature deltaTime (numAt metaData 0) (numAt metaData 1)
      else if metaType = Some 0x2f then MetaEndOfTrack deltaTime
      else MetaOther deltaTime metaType metaData)"

text \<open>
  One turn of the loop \<^verbatim>\<open>while (pos < data.length)\<close> of \<^verbatim>\<open>parseTrackEvents\<close>: the event pushed,
  if any, the position after the event and the running status. The last branch is the one
  for an event type that is neither a channel message nor \<open>0xFF\<close>: the source logs a warning,
  pushes nothing and adds 2 to the position.
\<close>

definition parseEvent :: "byte list \<Rightarrow> int \<Rightarrow> byte \<Rightarrow> MIDIEvent option \<times> int \<times> byte" where
  "parseEvent data pos0 runningStatus0 =
     (let (deltaTime, pos1) = readVarLen data pos0 0;
          (eventType, pos, runningStatus) = readStatus data pos1 runningStatus0;
          channel = uint (eventType AND 0x0f)
      in
      if eventType AND 0xf0 = 0x80 then
        (Some (NoteOff deltaTime channel (numAt data pos) (numAt data (pos + 1))), pos + 2, runningStatus)
      else if eventType AND 0xf0 = 0x90 then
        (let noteNumber = numAt data pos; velocity = numAt data (pos + 1) in
         (Some (if velocity = Some 0 then NoteOff deltaTime channel noteNumber velocity
                else NoteOn deltaTime channel noteNumber velocity), pos + 2, runningStatus))
      else if eventType AND 0xf0 = 0xa0 then
        (Some (NoteAftertouch deltaTime channel (numAt data pos) (numAt data (pos + 1))), pos + 2, runningStatus)
      else if eventType AND 0xf0 = 0xb0 then
        (Some (Controller deltaTime channel (numAt data pos) (numAt data (pos + 1))), pos + 2, runningStatus)
      else if eventType AND 0xf0 = 0xc0 then
        (Some (ProgramChange deltaTime channel (numAt data pos)), pos + 1, runningStatus)
      else if eventType AND 0xf0 = 0xd0 then
        (Some (ChannelAftertouch deltaTime channel (numAt data pos)), pos + 1, runningStatus)
      else if eventType AND 0xf0 = 0xe0 then
        (let lsb = (case numAt data pos of Some b \<Rightarrow> b | None \<Rightarrow> 0);
             msb = (case numAt data (pos + 1) of Some b \<Rightarrow> b | None \<Rightarrow> 0)
         in (Some (PitchBend deltaTime channel (push_bit 7 msb OR lsb)), pos + 2, runningStatus))
      else if eventType = 0xff then
        (let metaType = numAt data pos;
             (len, pos2) = readVarLen data (pos + 1) 0;
             metaData = slice data pos2 (pos2 + len)
         in (Some (metaEvent deltaTime metaType metaData), pos2 + len, runningStatus))
      else (None, pos + 2, runningStatus))"

text \<open>
  The loop. A meta event whose length wraps around to a negative number moves the position
  backwards, so the loop need not end; not returning is the value \<open>None\<close>.
\<close>

partial_function (option) parseLoop ::
  "byte list \<Rightarrow> int \<Rightarrow> byte \<Rightarrow> MIDIEvent list \<Rightarrow> MIDIEvent list option" where
  "parseLoop data pos runningStatus events =
     (if pos < int (length data) then
        (case parseEvent data pos runningStatus of
           (ev, pos', runningStatus') \<Rightarrow>
             parseLoop data pos' runningStatus'
               (case ev of None \<Rightarrow> events | Some e \<Rightarrow> events @ [e]))
      else Some events)"

declare parseLoop.simps [code]

definition parseTrackEvents :: "byte list \<Rightarrow> MIDIEvent list option" where
  "parseTrackEvents data = parseLoop data 0 0 []"

section \<open>The pattern converter (midi-converter)\<close>

record MIDINote =
  noteNumber :: int
  velocity :: int
  time :: int
  duration :: int
  channel :: int

record MIDITrack =
  trackName :: "string option"
  events :: "MIDIEvent list"
  trackNotes :: "MIDINote list"

record MIDIHeader =
  format :: int
  numTracks :: int
  ticksPerBeat :: int

record MIDIData =
  header :: MIDIHeader
  tracks :: "MIDITrack list"

record TimeSignature =
  numerator :: int
  denominator :: int

text \<open>
  What the two nested loops over the tracks and their events keep: the tempo in beats per
  minute, the time signature and the track name. Every matching event overwrites the value
  found before; there is no \<^verbatim>\<open>break\<close>.
\<close>

record SongMeta =
  sm_bpm :: int
  sm_timeSignature :: TimeSignature
  sm_trackName :: string

text \<open>
  The body of the inner loop. A tempo event counts when its value is truthy (not 0); the
  beats per minute are \<^verbatim>\<open>Math.round(60000000 / value)\<close>, which rounds a half upwards, as
  \<open>round\<close> does. A time signature counts when numerator and denominator are truthy, a track
  name when its text is not empty.
\<close>

fun scanEvent :: "SongMeta \<Rightarrow> MIDIEvent \<Rightarrow> SongMeta" where
  "scanEvent m (MetaTempo deltaTime v) =
     (if v \<noteq> 0 then m\<lparr>sm_bpm := round ((60000000 :: rat) / of_int v)\<rparr> else m)"
| "scanEvent m (MetaTimeSignature deltaTime (Some n) (Some d)) =
     (if n \<noteq> 0 \<and> d \<noteq> 0 then m\<lparr>sm_timeSignature := \<lparr>numerator = n, denominator = d\<rparr>\<rparr> else m)"
| "scanEvent m (MetaTrackName deltaTime text) =
     (if text \<noteq> [] then m\<lparr>sm_trackName := text\<rparr> else m)"
| "scanEvent m _ = m"

definition scanMeta :: "MIDIData \<Rightarrow> SongMeta" where
  "scanMeta midiData =
     foldl (\<lambda>m track. foldl scanEvent m (events track))
       \<lparr>sm_bpm = 120, sm_timeSignature = \<lparr>numerator = 4, denominator = 4\<rparr>, sm_trackName = []\<rparr>
       (tracks midiData)"

subsection \<open>convertToProgression\<close>

record ProgressionMeta =
  source :: string
  bpm :: int
  timeSignature :: TimeSignature
  pm_name :: "string option"

record ProgressionData =
  pd_notes :: "MIDINote list"
  meta :: ProgressionMeta

definition convertToProgression :: "MIDIData \<Rightarrow> ProgressionData" where
  "convertToProgression midiData =
     (let allNotes = sort_key time (concat (map trackNotes (tracks midiData)));
          m = scanMeta midiData
      in \<lparr>pd_notes = allNotes,
          meta = \<lparr>source = ''midi'', bpm = sm_bpm m, timeSignature = sm_timeSignature m,
                   pm_name = (if sm_trackName m = [] then None else Some (sm_trackName m))\<rparr>\<rparr>)"

subsection \<open>convertToMPCPattern\<close>

record MPCPatternEvent =
  tick :: int
  ev_duration :: int
  ev_velocity :: int
  probability :: rat

record MPCPatternTrack =
  track_id :: string
  track_name :: string
  padId :: int
  track_events :: "MPCPatternEvent list"

text \<open>
  The number of bars is \<^verbatim>\<open>Math.ceil(maxTick / ticksPerBar)\<close>: not a number when both are 0,
  infinite when only \<open>ticksPerBar\<close> is 0 (\<open>maxTick\<close> is never negative).
\<close>

datatype Bars = Bars int | InfiniteBars | NotANumber

record MPCPatternData =
  pattern_name :: string
  pattern_bpm :: int
  swing :: int
  bars :: Bars
  timeSig :: TimeSignature
  pattern_tracks :: "MPCPatternTrack list"

definition maxEndTick :: "MIDIData \<Rightarrow> int" where
  "maxEndTick midiData =
     foldl (\<lambda>maxTick n. let endTick = time n + duration n in if endTick > maxTick then endTick else maxTick)
       0 (concat (map trackNotes (tracks midiData)))"

text \<open>
  \<^verbatim>\<open>padMapping ? padMapping.get(note.note) || note.note : note.channel\<close>. A mapping object is
  truthy even when it is empty; \<^verbatim>\<open>get\<close> gives \<^verbatim>\<open>undefined\<close> for a note without an entry, and
  \<^verbatim>\<open>||\<close> skips \<^verbatim>\<open>undefined\<close> and 0.
\<close>

definition trackIdOf :: "(int \<rightharpoonup> int) option \<Rightarrow> MIDINote \<Rightarrow> int" where
  "trackIdOf padMapping n =
     (case padMapping of
        Some mapping \<Rightarrow>
          (case mapping (noteNumber n) of
             Some pad \<Rightarrow> if pad \<noteq> 0 then pad else noteNumber n
           | None \<Rightarrow> noteNumber n)
      | None \<Rightarrow> channel n)"

text \<open>
  \<^verbatim>\<open>notesByTrack\<close> is a map that keeps its keys in the order of their first insertion: an
  association list. \<open>addNote\<close> is the body of the inner loop for one note.
\<close>

fun addNote :: "int \<Rightarrow> MIDINote \<Rightarrow> (int \<times> MIDINote list) list \<Rightarrow> (int \<times> MIDINote list) list" where
  "addNote trackId n [] = [(trackId, [n])]"
| "addNote trackId n ((k, ns) # rest) =
     (if k = trackId then (k, ns @ [n]) # rest else (k, ns) # addNote trackId n rest)"

definition groupNotes :: "(int \<rightharpoonup> int) option \<Rightarrow> MIDIData \<Rightarrow> (int \<times> MIDINote list) list" where
  "groupNotes padMapping midiData =
     foldl (\<lambda>notesByTrack n. addNote (trackIdOf padMapping n) n notesByTrack) []
       (concat (map trackNotes (tracks midiData)))"

definition patternEvent :: "MIDINote \<Rightarrow> MPCPatternEvent" where
  "patternEvent n = \<lparr>tick = time n, ev_duration = duration n, ev_velocity = velocity n, probability = 1\<rparr>"

definition convertToMPCPattern :: "MIDIData \<Rightarrow> (int \<rightharpoonup> int) option \<Rightarrow> MPCPatternData" where
  "convertToMPCPattern midiData padMapping =
     (let m = scanMeta midiData;
          maxTick = maxEndTick midiData;
          ticksPerBar = ticksPerBeat (header midiData) * numerator (sm_timeSignature m);
          bars = (if ticksPerBar = 0 then (if maxTick = 0 then NotANumber else InfiniteBars)
                  else Bars \<lceil>(of_int maxTick :: rat) / of_int ticksPerBar\<rceil>);
          tracks = map (\<lambda>(trackId, ns).
                      \<lparr>track_id = ''track_'' @ showInt trackId,
                       track_name = ''Track '' @ showInt trackId,
                       padId = trackId,
                       track_events = map patternEvent ns\<rparr>)
                    (groupNotes padMapping midiData)
      in \<lparr>pattern_name = (if sm_trackName m = [] then ''Imported Pattern'' else sm_trackName m),
          pattern_bpm = sm_bpm m,
          swing = 0,
          bars = bars,
          timeSig = sm_timeSignature m,
          pattern_tracks = tracks\<rparr>)"

subsection \<open>Examples and auxiliary notions\<close>

text \<open>
  A track whose first event has the status byte \<open>0xF0\<close>, followed by the two bytes the
  decoder skips, a note-on and the end of the track.
\<close>

definition exampleUnknownStatus :: "byte list" where
  "exampleUnknownStatus = [0x00, 0xF0, 0x01, 0x02, 0x00, 0x90, 0x3C, 0x64, 0x00, 0xFF, 0x2F, 0x00]"

text \<open>A track with two tempo events (500000 and 1000000 microseconds per quarter note).\<close>

definition exampleTempoTrack :: "byte list" where
  "exampleTempoTrack =
     [0x00, 0xFF, 0x51, 0x03, 0x07, 0xA1, 0x20,
      0x00, 0xFF, 0x51, 0x03, 0x0F, 0x42, 0x40,
      0x00, 0xFF, 0x2F, 0x00]"

definition exampleTempoFile :: MIDIData where
  "exampleTempoFile =
     \<lparr>header = \<lparr>format = 0, numTracks = 1, ticksPerBeat = 480\<rparr>,
      tracks = [\<lparr>trackName = None,
                 events = [MetaTempo 0 500000, MetaTempo 0 1000000, MetaEndOfTrack 0],
                 trackNotes = []\<rparr>]\<rparr>"

text \<open>Three notes on channel 9, the first with note number 0.\<close>

definition exampleGrid :: MIDIData where
  "exampleGrid =
     \<lparr>header = \<lparr>format = 0, numTracks = 1, ticksPerBeat = 480\<rparr>,
      tracks = [\<lparr>trackName = None, events = [],
                 trackNotes = [\<lparr>noteNumber = 0, velocity = 100, time = 0, duration = 480, channel = 9\<rparr>,
                               \<lparr>noteNumber = 36, velocity = 90, time = 480, duration = 240, channel = 9\<rparr>,
                               \<lparr>noteNumber = 38, velocity = 80, time = 960, duration = 240, channel = 9\<rparr>]\<rparr>]\<rparr>"

text \<open>
  The values of the tempo events that count (those that are not 0), in the order in which the
  loops visit them: track by track, event by event.
\<close>

fun tempoValue :: "MIDIEvent \<Rightarrow> int list" where
  "tempoValue (MetaTempo deltaTime v) = (if v \<noteq> 0 then [v] else [])"
| "tempoValue _ = []"

definition tempoValues :: "MIDIData \<Rightarrow> int list" where
  "tempoValues midiData = concat (map tempoValue (concat (map events (tracks midiData))))"

text \<open>
  What the grouping loop keeps true of \<^verbatim>\<open>notesByTrack\<close> after the notes \<open>ns\<close>, for the
  track id \<open>f\<close>: the keys are distinct, they are the ids of the notes, and each key holds the
  notes with that id, in their order.
\<close>

definition groupInv :: "(MIDINote \<Rightarrow> int) \<Rightarrow> MIDINote list \<Rightarrow> (int \<times> MIDINote list) list \<Rightarrow> bool" where
  "groupInv f ns g =
     (distinct (map fst g) \<and> set (map fst g) = f ` set ns \<and>
      (\<forall>k \<in> f ` set ns. map_of g k = Some (filter (\<lambda>n. f n = k) ns)))"

section \<open>Properties of the decoder and of the pattern converter\<close>

lemma parseTrackEvents_note_example:
  "parseTrackEvents [0x00, 0x90, 0x3C, 0x64, 0x83, 0x60, 0x80, 0x3C, 0x00, 0x00, 0xFF, 0x2F, 0x00]
   = Some [NoteOn 0 0 (Some 60) (Some 100), NoteOff 480 0 (Some 60) (Some 0), MetaEndOfTrack 0]"
  by code_simp

text \<open>
  \<^bold>\<open>C3, as the claim states it, fails.\<close> The decoder has no failure for an unrecognized
  status byte: on the example track it returns the events after the byte \<open>0xF0\<close> and the two
  bytes it skipped.
\<close>

theorem unknown_status_no_error_counterexample:
  "parseTrackEvents exampleUnknownStatus = Some [NoteOn 0 0 (Some 60) (Some 100), MetaEndOfTrack 0]"
  by code_simp

text \<open>
  \<^bold>\<open>C3, amended.\<close> When the event type of an event (the status byte, or the running status
  when the next byte is data) is none of the channel message nibbles \<open>0x80\<close> to \<open>0xE0\<close> and is
  not \<open>0xFF\<close>, the decoder pushes no event, moves two bytes past the status and goes on parsing
  the rest of the track from there with the same list of events. It does not fail.
\<close>

theorem unknown_status_skips_two_bytes:
  assumes "pos < int (length data)"
    and "readVarLen data pos 0 = (deltaTime, pos1)"
    and "readStatus data pos1 runningStatus = (eventType, p, runningStatus')"
    and "eventType AND 0xf0 \<notin> {0x80, 0x90, 0xa0, 0xb0, 0xc0, 0xd0, 0xe0}"
    and "eventType \<noteq> 0xff"
  shows "parseEvent data pos runningStatus = (None, p + 2, runningStatus') \<and>
         parseLoop data pos runningStatus evs = parseLoop data (p + 2) runningStatus' evs"
proof -
  have step: "parseEvent data pos runningStatus = (None, p + 2, runningStatus')"
    using assms(2-5) by (simp add: parseEvent_def Let_def)
  then show ?thesis
    using assms(1) by (subst parseLoop.simps) simp
qed

text \<open>The theorem at the example track, first event.\<close>

theorem unknown_status_skips_two_bytes_witness:
  "0 < int (length exampleUnknownStatus) \<and>
   readVarLen exampleUnknownStatus 0 0 = (0, 1) \<and>
   readStatus exampleUnknownStatus 1 0 = (0xF0, 2, 0xF0) \<and>
   parseEvent exampleUnknownStatus 0 0 = (None, 4, 0xF0) \<and>
   parseLoop exampleUnknownStatus 0 0 [] = parseLoop exampleUnknownStatus 4 0xF0 []"
proof -
  have h1: "0 < int (length exampleUnknownStatus)" by (simp add: exampleUnknownStatus_def)
  have h2: "readVarLen exampleUnknownStatus 0 0 = (0, 1)" by code_simp
  have h3: "readStatus exampleUnknownStatus 1 0 = (0xF0, 2, 0xF0)" by code_simp
  have h4: "(0xF0 :: byte) AND 0xf0 \<notin> {0x80, 0x90, 0xa0, 0xb0, 0xc0, 0xd0, 0xe0}" by simp
  have h5: "(0xF0 :: byte) \<noteq> 0xff" by simp
  from unknown_status_skips_two_bytes[OF h1 h2 h3 h4 h5, of "[]"] h1 h2 h3 show ?thesis by simp
qed

lemma foldl_foldl_concat: "foldl (\<lambda>m t. foldl f m (g t)) m ts = foldl f m (concat (map g ts))"
  by (induction ts arbitrary: m) simp_all

lemma scanEvent_bpm:
  "sm_bpm (scanEvent m e) =
     (if tempoValue e = [] then sm_bpm m else round ((60000000 :: rat) / of_int (last (tempoValue e))))"
  by (cases "(m, e)" rule: scanEvent.cases) simp_all

lemma scan_bpm:
  "sm_bpm (foldl scanEvent m es) =
     (if concat (map tempoValue es) = [] then sm_bpm m
      else round ((60000000 :: rat) / of_int (last (concat (map tempoValue es)))))"
proof (induction es arbitrary: m)
  case Nil
  show ?case by simp
next
  case (Cons e es)
  show ?case
    unfolding foldl_Cons Cons.IH
    by (simp add: scanEvent_bpm)
qed

lemma scanMeta_bpm:
  "sm_bpm (scanMeta midiData) =
     (if tempoValues midiData = [] then 120
      else round ((60000000 :: rat) / of_int (last (tempoValues midiData))))"
  unfolding scanMeta_def foldl_foldl_concat scan_bpm tempoValues_def by simp

text \<open>
  \<^bold>\<open>C7, as the claim states it, fails.\<close> The example track decodes to two tempo events;
  the first one gives \<open>round (60000000 / 500000) = 120\<close>, but the projection's tempo is 60, that
  of the second.
\<close>

theorem bpm_first_tempo_counterexample:
  "parseTrackEvents exampleTempoTrack = Some (events (tracks exampleTempoFile ! 0)) \<and>
   bpm (meta (convertToProgression exampleTempoFile)) = 60 \<and>
   round ((60000000 :: rat) / 500000) = (120 :: int)"
  by code_simp

text \<open>
  \<^bold>\<open>C7, amended.\<close> The tempo of the flat projection is \<open>round (60000000 / v)\<close> where \<open>v\<close>
  is the value of the last tempo event with a value other than 0, in the order of the tracks
  and of their events, and 120 when there is no such event. A value of 500000 gives 120.
\<close>

theorem bpm_from_last_tempo:
  "bpm (meta (convertToProgression midiData)) =
     (if tempoValues midiData = [] then 120
      else round ((60000000 :: rat) / of_int (last (tempoValues midiData)))) \<and>
   (tempoValues midiData \<noteq> [] \<and> last (tempoValues midiData) = 500000 \<longrightarrow>
      bpm (meta (convertToProgression midiData)) = 120)"
proof -
  have "round ((60000000 :: rat) / 500000) = 120" by simp
  then show ?thesis
    by (simp add: convertToProgression_def Let_def scanMeta_bpm)
qed

text \<open>The theorem at the file with the two tempo events.\<close>

theorem bpm_from_last_tempo_witness:
  "tempoValues exampleTempoFile \<noteq> [] \<and> last (tempoValues exampleTempoFile) = 1000000 \<and>
   bpm (meta (convertToProgression exampleTempoFile)) = 60"
proof -
  have h: "tempoValues exampleTempoFile = [500000, 1000000]"
    by (simp add: tempoValues_def exampleTempoFile_def)
  from bpm_from_last_tempo[of exampleTempoFile] show ?thesis by (simp add: h)
qed

lemma addNote_keys:
  "map fst (addNote k n acc) = (if k \<in> set (map fst acc) then map fst acc else map fst acc @ [k])"
  by (induction k n acc rule: addNote.induct) auto

lemma addNote_map_of:
  "map_of (addNote k n acc) =
     (map_of acc)(k \<mapsto> (case map_of acc k of None \<Rightarrow> [] | Some xs \<Rightarrow> xs) @ [n])"
  by (induction k n acc rule: addNote.induct) (auto simp: fun_eq_iff)

lemma groupInv_step:
  assumes "groupInv f ns g"
  shows "groupInv f (ns @ [n]) (addNote (f n) n g)"
proof -
  let ?g' = "addNote (f n) n g"
  have d: "distinct (map fst g)" and k: "set (map fst g) = f ` set ns"
    and m: "\<And>k. k \<in> f ` set ns \<Longrightarrow> map_of g k = Some (filter (\<lambda>n. f n = k) ns)"
    using assms by (auto simp: groupInv_def)
  have d': "distinct (map fst ?g')" using d by (simp add: addNote_keys)
  have k': "set (map fst ?g') = f ` set (ns @ [n])" using k by (auto simp: addNote_keys)
  have none: "map_of g (f n) = None" if "f n \<notin> f ` set ns"
    using that k by (metis map_of_eq_None_iff set_map)
  have nil: "filter (\<lambda>x. f x = f n) ns = []" if "f n \<notin> f ` set ns"
  proof -
    have "\<forall>x \<in> set ns. f x \<noteq> f n" using that by (metis imageI)
    then show ?thesis by (simp add: filter_empty_conv)
  qed
  have m': "map_of ?g' j = Some (filter (\<lambda>x. f x = j) (ns @ [n]))" if "j \<in> f ` set (ns @ [n])" for j
  proof (cases "j = f n")
    case True
    show ?thesis
    proof (cases "f n \<in> f ` set ns")
      case True
      then show ?thesis using \<open>j = f n\<close> m[OF True] by (simp add: addNote_map_of)
    next
      case False
      then show ?thesis using \<open>j = f n\<close> none nil by (simp add: addNote_map_of)
    qed
  next
    case False
    then have "j \<in> f ` set ns" using that by auto
    then show ?thesis using False m by (simp add: addNote_map_of)
  qed
  show ?thesis unfolding groupInv_def using d' k' m' by blast
qed

lemma groupInv_foldl:
  "groupInv f ns g \<Longrightarrow> groupInv f (ns @ ms) (foldl (\<lambda>acc n. addNote (f n) n acc) g ms)"
proof (induction ms arbitrary: ns g)
  case Nil
  then show ?case by simp
next
  case (Cons m ms)
  from Cons.IH[OF groupInv_step[OF Cons.prems, of m]] show ?case by simp
qed

lemma groupNotes_inv:
  "groupInv (trackIdOf padMapping) (concat (map trackNotes (tracks midiData))) (groupNotes padMapping midiData)"
proof -
  have "groupInv (trackIdOf padMapping) [] []" by (simp add: groupInv_def)
  from groupInv_foldl[OF this] show ?thesis unfolding groupNotes_def by simp
qed

lemma groupInv_member:
  assumes "groupInv f ns g" "(k, xs) \<in> set g"
  shows "k \<in> f ` set ns \<and> xs = filter (\<lambda>n. f n = k) ns"
proof -
  have "map_of g k = Some xs" using assms by (simp add: groupInv_def)
  moreover have "k \<in> f ` set ns" using assms by (force simp: groupInv_def)
  ultimately show ?thesis using assms(1) by (auto simp: groupInv_def)
qed

text \<open>
  \<^bold>\<open>C10, as the claim states it, fails.\<close> With the mapping \<open>36 \<mapsto> 1\<close> supplied, the note
  with number 0 has no entry and is grouped under its own number: the pattern has a track for
  pad 0.
\<close>

theorem grid_pad_zero_counterexample:
  "map padId (pattern_tracks (convertToMPCPattern exampleGrid (Some [36 \<mapsto> 1]))) = [0, 1, 38]"
  by code_simp

text \<open>
  \<^bold>\<open>C10, amended.\<close> With a mapping supplied, the tracks have distinct pad ids; each track
  holds, in their order, the events of exactly the notes whose id is its pad id; the id of a
  note is its own note number when the mapping has no entry for the note or maps it to pad 0,
  and the mapped pad otherwise; and the channel plays no part. A track for pad 0 exists
  exactly when some note has number 0 and the mapping has no entry for 0 or maps 0 to 0. With
  no mapping supplied, the pad ids are the channels of the notes.
\<close>

theorem grid_fallback_is_per_note:
  "let ts = pattern_tracks (convertToMPCPattern midiData (Some mapping));
       ns = concat (map trackNotes (tracks midiData))
   in distinct (map padId ts) \<and>
      (\<forall>t\<in>set ts. (\<exists>n\<in>set ns. trackIdOf (Some mapping) n = padId t) \<and>
          track_events t = map patternEvent (filter (\<lambda>n. trackIdOf (Some mapping) n = padId t) ns)) \<and>
      (\<forall>n\<in>set ns.
          (\<exists>t\<in>set ts. padId t = trackIdOf (Some mapping) n \<and> patternEvent n \<in> set (track_events t)) \<and>
          (mapping (noteNumber n) = None \<or> mapping (noteNumber n) = Some 0
             \<longrightarrow> trackIdOf (Some mapping) n = noteNumber n) \<and>
          (\<forall>pad. mapping (noteNumber n) = Some pad \<and> pad \<noteq> 0
             \<longrightarrow> trackIdOf (Some mapping) n = pad)) \<and>
      ((\<exists>t\<in>set ts. padId t = 0) \<longleftrightarrow>
         (\<exists>n\<in>set ns. noteNumber n = 0 \<and> (mapping 0 = None \<or> mapping 0 = Some 0))) \<and>
      set (map padId (pattern_tracks (convertToMPCPattern midiData None))) = channel ` set ns"
proof -
  define ns where "ns = concat (map trackNotes (tracks midiData))"
  define f where "f = trackIdOf (Some mapping)"
  define g where "g = groupNotes (Some mapping) midiData"
  define mk where "mk = (\<lambda>(trackId, xs :: MIDINote list).
                      \<lparr>track_id = ''track_'' @ showInt trackId,
                       track_name = ''Track '' @ showInt trackId,
                       padId = trackId,
                       track_events = map patternEvent xs\<rparr>)"
  define ts where "ts = pattern_tracks (convertToMPCPattern midiData (Some mapping))"
  have ts: "ts = map mk g"
    by (simp add: ts_def convertToMPCPattern_def Let_def mk_def g_def)
  have inv: "groupInv f ns g" unfolding f_def ns_def g_def by (rule groupNotes_inv)
  have pads: "map padId ts = map fst g"
    by (simp add: ts mk_def case_prod_beta comp_def)
  have A: "distinct (map padId ts)" using inv by (simp add: pads groupInv_def)
  have keys: "set (map padId ts) = f ` set ns" using inv by (simp add: pads groupInv_def)
  have B: "(\<exists>n\<in>set ns. f n = padId t) \<and> track_events t = map patternEvent (filter (\<lambda>n. f n = padId t) ns)"
    if "t \<in> set ts" for t
  proof -
    from that obtain k xs where kx: "(k, xs) \<in> set g" "t = mk (k, xs)" by (auto simp: ts)
    from groupInv_member[OF inv kx(1)] kx(2) show ?thesis by (auto simp: mk_def)
  qed
  have C: "\<exists>t\<in>set ts. padId t = f n \<and> patternEvent n \<in> set (track_events t)" if "n \<in> set ns" for n
  proof -
    have "f n \<in> set (map padId ts)" using that keys by simp
    then obtain t where t: "t \<in> set ts" "padId t = f n" by auto
    then have "patternEvent n \<in> set (track_events t)" using B[OF t(1)] that by simp
    then show ?thesis using t by blast
  qed
  have D: "(\<exists>t\<in>set ts. padId t = 0) \<longleftrightarrow>
         (\<exists>n\<in>set ns. noteNumber n = 0 \<and> (mapping 0 = None \<or> mapping 0 = Some 0))"
  proof -
    have "(\<exists>t\<in>set ts. padId t = 0) \<longleftrightarrow> 0 \<in> set (map padId ts)" by auto
    also have "\<dots> \<longleftrightarrow> (\<exists>n\<in>set ns. f n = 0)" unfolding keys by auto
    also have "\<dots> \<longleftrightarrow> (\<exists>n\<in>set ns. noteNumber n = 0 \<and> (mapping 0 = None \<or> mapping 0 = Some 0))"
      by (rule bex_cong) (auto simp: f_def trackIdOf_def split: option.splits)
    finally show ?thesis .
  qed
  have E: "set (map padId (pattern_tracks (convertToMPCPattern midiData None))) = channel ` set ns"
  proof -
    have "groupInv (trackIdOf None) ns (groupNotes None midiData)"
      unfolding ns_def by (rule groupNotes_inv)
    moreover have "trackIdOf None = channel" by (simp add: trackIdOf_def fun_eq_iff)
    moreover have "map padId (pattern_tracks (convertToMPCPattern midiData None)) = map fst (groupNotes None midiData)"
      by (simp add: convertToMPCPattern_def Let_def case_prod_beta comp_def)
    ultimately show ?thesis by (simp add: groupInv_def)
  qed
  have F: "(mapping (noteNumber n) = None \<or> mapping (noteNumber n) = Some 0 \<longrightarrow> f n = noteNumber n) \<and>
           (\<forall>pad. mapping (noteNumber n) = Some pad \<and> pad \<noteq> 0 \<longrightarrow> f n = pad)" for n
    by (auto simp: f_def trackIdOf_def)
  show ?thesis
    unfolding Let_def ts_def[symmetric] ns_def[symmetric] f_def[symmetric]
    using A B C D E F by blast
qed

text \<open>The theorem at the three example notes with the mapping \<open>36 \<mapsto> 1\<close>.\<close>

theorem grid_fallback_is_per_note_witness:
  "(\<exists>n\<in>set (concat (map trackNotes (tracks exampleGrid))). noteNumber n = 0 \<and> [36 \<mapsto> 1] (0::int) = (None :: int option)) \<and>
   (\<exists>t\<in>set (pattern_tracks (convertToMPCPattern exampleGrid (Some [36 \<mapsto> 1]))). padId t = 0) \<and>
   distinct (map padId (pattern_tracks (convertToMPCPattern exampleGrid (Some [36 \<mapsto> 1])))) \<and>
   set (map padId (pattern_tracks (convertToMPCPattern exampleGrid None))) = {9}"
proof -
  have h: "\<exists>n\<in>set (concat (map trackNotes (tracks exampleGrid))). noteNumber n = 0 \<and>
             ([36 \<mapsto> 1] (0::int) = (None :: int option) \<or> [36 \<mapsto> 1] (0::int) = Some (0::int))"
    by (simp add: exampleGrid_def)
  have c: "channel ` set (concat (map trackNotes (tracks exampleGrid))) = {9}"
    by (simp add: exampleGrid_def)
  from grid_fallback_is_per_note[of exampleGrid "[36 \<mapsto> 1]"] h c show ?thesis
    unfolding Let_def by (simp add: exampleGrid_def)
qed

section \<open>The platform's XML parser and document queries\<close>

text \<open>
  The reader of the codec hands the text to the platform's XML parser
  (\<^verbatim>\<open>new DOMParser().parseFromString(content, "text/xml")\<close>) and then asks the document for
  elements by name and for attribute values. The parser is not code of the repository. It is
  modelled here for the part of XML the codec writes and repairs: the declaration header the
  writer emits, elements with attributes in quotes, empty elements, and character data. The
  model has three answers: the element tree of a document it accepts, \<open>Malformed\<close> for a text
  that breaks the rules of XML within that part (for which the platform returns a
  \<^verbatim>\<open>parsererror\<close> document), and \<open>OutsideModel\<close> for a text that uses anything else
  (references with \<open>&\<close>, comments, other markup that starts with \<open><!\<close> or \<open><?\<close>, names with
  characters outside ASCII), about which the model says nothing. Text nodes are not kept:
  the reader never looks at them.
\<close>

datatype xml = Element string "(string \<times> string) list" "xml list"

fun tagName :: "xml \<Rightarrow> string" where
  "tagName (Element n as cs) = n"

fun attributes :: "xml \<Rightarrow> (string \<times> string) list" where
  "attributes (Element n as cs) = as"

fun childElements :: "xml \<Rightarrow> xml list" where
  "childElements (Element n as cs) = cs"

datatype ParseFailure = Malformed | OutsideModel

datatype ParseResult = Parsed xml | NotParsed ParseFailure

definition isSpace :: "char \<Rightarrow> bool" where
  "isSpace c = (c = CHR '' '' \<or> c = CHR 0x09 \<or> c = CHR 0x0A \<or> c = CHR 0x0D)"

definition isLetter :: "char \<Rightarrow> bool" where
  "isLetter c = (c \<in> set ''abcdefghijklmnopqrstuvwxyzABCDEFGHIJKLMNOPQRSTUVWXYZ'')"

definition isNameStart :: "char \<Rightarrow> bool" where
  "isNameStart c = (isLetter c \<or> c = CHR ''_'' \<or> c = CHR '':'')"

definition isNameChar :: "char \<Rightarrow> bool" where
  "isNameChar c = (isNameStart c \<or> isDigit c \<or> c = CHR ''.'' \<or> c = CHR ''-'')"

text \<open>A control character that XML does not allow in a document.\<close>

definition isControl :: "char \<Rightarrow> bool" where
  "isControl c = (of_char c < (32 :: nat) \<and> \<not> isSpace c)"

text \<open>
  The parser reads the text one character at a time. Its state is the stack of the elements
  that are open (each with its name, its attributes and the children it has so far), the
  root element once it is complete, and what it is in the middle of.
\<close>

datatype Mode =
    InText
  | AfterLt
  | OpenName string
  | InAttrs string "(string \<times> string) list"
  | AttrName string "(string \<times> string) list" string
  | AttrEq string "(string \<times> string) list" string
  | AttrQuote string "(string \<times> string) list" string
  | AttrValue string "(string \<times> string) list" string char string
  | AfterValue string "(string \<times> string) list"
  | AfterSlash string "(string \<times> string) list"
  | CloseStart
  | CloseName string
  | CloseSpace string
  | Failed ParseFailure

type_synonym Frame = "string \<times> (string \<times> string) list \<times> xml list"

type_synonym ParserState = "Frame list \<times> xml option \<times> Mode"

definition openElement :: "Frame list \<Rightarrow> xml option \<Rightarrow> string \<Rightarrow> (string \<times> string) list \<Rightarrow> ParserState" where
  "openElement stack rootEl n as = ((n, as, []) # stack, rootEl, InText)"

definition addElement :: "Frame list \<Rightarrow> xml option \<Rightarrow> xml \<Rightarrow> ParserState" where
  "addElement stack rootEl e =
     (case stack of
        [] \<Rightarrow> (case rootEl of None \<Rightarrow> ([], Some e, InText) | Some r \<Rightarrow> ([], rootEl, Failed Malformed))
      | (n, as, cs) # rest \<Rightarrow> ((n, as, cs @ [e]) # rest, rootEl, InText))"

definition closeElement :: "Frame list \<Rightarrow> xml option \<Rightarrow> string \<Rightarrow> ParserState" where
  "closeElement stack rootEl name =
     (case stack of
        [] \<Rightarrow> (stack, rootEl, Failed Malformed)
      | (n, as, cs) # rest \<Rightarrow>
          if n = name then addElement rest rootEl (Element n as cs)
          else (stack, rootEl, Failed Malformed))"

definition afterName :: "Frame list \<Rightarrow> xml option \<Rightarrow> string \<Rightarrow> (string \<times> string) list \<Rightarrow> char \<Rightarrow> ParserState" where
  "afterName stack rootEl n as c =
     (if c = CHR ''>'' then openElement stack rootEl n as
      else if c = CHR ''/'' then (stack, rootEl, AfterSlash n as)
      else (stack, rootEl, Failed Malformed))"

fun parserStep :: "ParserState \<Rightarrow> char \<Rightarrow> ParserState" where
  "parserStep (stack, rootEl, InText) c =
     (if c = CHR ''<'' then (stack, rootEl, AfterLt)
      else if c = CHR ''&'' \<or> c = CHR ''>'' then (stack, rootEl, Failed OutsideModel)
      else if isControl c then (stack, rootEl, Failed Malformed)
      else if stack = [] \<and> \<not> isSpace c then (stack, rootEl, Failed Malformed)
      else (stack, rootEl, InText))"
| "parserStep (stack, rootEl, AfterLt) c =
     (if c = CHR ''/'' then (stack, rootEl, CloseStart)
      else if c = CHR ''!'' \<or> c = CHR ''?'' then (stack, rootEl, Failed OutsideModel)
      else if isNameStart c then
        (if stack = [] \<and> rootEl \<noteq> None then (stack, rootEl, Failed Malformed)
         else (stack, rootEl, OpenName [c]))
      else if of_char c \<ge> (128 :: nat) then (stack, rootEl, Failed OutsideModel)
      else (stack, rootEl, Failed Malformed))"
| "parserStep (stack, rootEl, OpenName n) c =
     (if isNameChar c then (stack, rootEl, OpenName (n @ [c]))
      else if isSpace c then (stack, rootEl, InAttrs n [])
      else if of_char c \<ge> (128 :: nat) then (stack, rootEl, Failed OutsideModel)
      else afterName stack rootEl n [] c)"
| "parserStep (stack, rootEl, InAttrs n as) c =
     (if isSpace c then (stack, rootEl, InAttrs n as)
      else if isNameStart c then (stack, rootEl, AttrName n as [c])
      else if of_char c \<ge> (128 :: nat) then (stack, rootEl, Failed OutsideModel)
      else afterName stack rootEl n as c)"
| "parserStep (stack, rootEl, AttrName n as a) c =
     (if isNameChar c then (stack, rootEl, AttrName n as (a @ [c]))
      else if c = CHR ''='' then (stack, rootEl, AttrQuote n as a)
      else if isSpace c then (stack, rootEl, AttrEq n as a)
      else if of_char c \<ge> (128 :: nat) then (stack, rootEl, Failed OutsideModel)
      else (stack, rootEl, Failed Malformed))"
| "parserStep (stack, rootEl, AttrEq n as a) c =
     (if isSpace c then (stack, rootEl, AttrEq n as a)
      else if c = CHR ''='' then (stack, rootEl, AttrQuote n as a)
      else (stack, rootEl, Failed Malformed))"
| "parserStep (stack, rootEl, AttrQuote n as a) c =
     (if isSpace c then (stack, rootEl, AttrQuote n as a)
      else if c = CHR 0x22 \<or> c = CHR 0x27 then (stack, rootEl, AttrValue n as a c [])
      else (stack, rootEl, Failed Malformed))"
| "parserStep (stack, rootEl, AttrValue n as a q v) c =
     (if c = q then
        (if a \<in> set (map fst as) then (stack, rootEl, Failed Malformed)
         else (stack, rootEl, AfterValue n (as @ [(a, v)])))
      else if c = CHR ''<'' then (stack, rootEl, Failed Malformed)
      else if c = CHR ''&'' then (stack, rootEl, Failed OutsideModel)
      else if isSpace c then (stack, rootEl, AttrValue n as a q (v @ [CHR '' '']))
      else if isControl c then (stack, rootEl, Failed Malformed)
      else (stack, rootEl, AttrValue n as a q (v @ [c])))"
| "parserStep (stack, rootEl, AfterValue n as) c =
     (if isSpace c then (stack, rootEl, InAttrs n as) else afterName stack rootEl n as c)"
| "parserStep (stack, rootEl, AfterSlash n as) c =
     (if c = CHR ''>'' then addElement stack rootEl (Element n as [])
      else (stack, rootEl, Failed Malformed))"
| "parserStep (stack, rootEl, CloseStart) c =
     (if isNameStart c then (stack, rootEl, CloseName [c])
      else if of_char c \<ge> (128 :: nat) then (stack, rootEl, Failed OutsideModel)
      else (stack, rootEl, Failed Malformed))"
| "parserStep (stack, rootEl, CloseName n) c =
     (if isNameChar c then (stack, rootEl, CloseName (n @ [c]))
      else if isSpace c then (stack, rootEl, CloseSpace n)
      else if c = CHR ''>'' then closeElement stack rootEl n
      else if of_char c \<ge> (128 :: nat) then (stack, rootEl, Failed OutsideModel)
      else (stack, rootEl, Failed Malformed))"
| "parserStep (stack, rootEl, CloseSpace n) c =
     (if isSpace c then (stack, rootEl, CloseSpace n)
      else if c = CHR ''>'' then closeElement stack rootEl n
      else (stack, rootEl, Failed Malformed))"
| "parserStep (stack, rootEl, Failed f) c = (stack, rootEl, Failed f)"

definition parserFinish :: "ParserState \<Rightarrow> ParseResult" where
  "parserFinish st =
     (case st of
        (stack, rootEl, Failed f) \<Rightarrow> NotParsed f
      | ([], Some e, InText) \<Rightarrow> Parsed e
      | _ \<Rightarrow> NotParsed Malformed)"

definition xmlDeclaration :: string where
  "xmlDeclaration = ''<?xml version=\"1.0\" encoding=\"UTF-8\"?>''"

text \<open>
  The one declaration the model knows is the header the writer and the repair pass emit, at the
  very start of the text.
\<close>

definition parseFromString :: "string \<Rightarrow> ParseResult" where
  "parseFromString content =
     (let body = (if take (length xmlDeclaration) content = xmlDeclaration
                  then drop (length xmlDeclaration) content else content)
      in parserFinish (foldl parserStep ([], None, InText) body))"

subsection \<open>Queries on the document\<close>

text \<open>The elements below an element, in document order.\<close>

fun descendants :: "xml \<Rightarrow> xml list" where
  "descendants (Element n as cs) = concat (map (\<lambda>c. c # descendants c) cs)"

text \<open>\<^verbatim>\<open>element.querySelectorAll(name)\<close> and \<^verbatim>\<open>element.querySelector(name)\<close> with a type selector.\<close>

definition querySelectorAll :: "xml \<Rightarrow> string \<Rightarrow> xml list" where
  "querySelectorAll e name = filter (\<lambda>d. tagName d = name) (descendants e)"

definition querySelector :: "xml \<Rightarrow> string \<Rightarrow> xml option" where
  "querySelector e name = (case querySelectorAll e name of [] \<Rightarrow> None | d # ds \<Rightarrow> Some d)"

text \<open>The same on the document node, below which the root element itself lies.\<close>

definition documentQuerySelectorAll :: "xml \<Rightarrow> string \<Rightarrow> xml list" where
  "documentQuerySelectorAll rootEl name = filter (\<lambda>d. tagName d = name) (rootEl # descendants rootEl)"

definition getAttribute :: "xml \<Rightarrow> string \<Rightarrow> string option" where
  "getAttribute e a = map_of (attributes e) a"

text \<open>
  \<^verbatim>\<open>Number.parseInt(text, 10)\<close>: leading white space, an optional sign, then digits up to the
  first character that is not one; without a digit the result is not a number (\<open>None\<close>).
\<close>

definition digitsValue :: "string \<Rightarrow> int" where
  "digitsValue ds = foldl (\<lambda>n d. 10 * n + digitValue d) 0 ds"

definition parseInt :: "string \<Rightarrow> int option" where
  "parseInt text =
     (let t = dropWhile isSpace text;
          (negative, u) = (case t of
                             c # cs \<Rightarrow> if c = CHR ''-'' then (True, cs)
                                       else if c = CHR ''+'' then (False, cs) else (False, t)
                           | [] \<Rightarrow> (False, t));
          ds = takeWhile isDigit u
      in if ds = [] then None
         else Some (if negative then - digitsValue ds else digitsValue ds))"

section \<open>The program codec\<close>

subsection \<open>The writer (xpm-generator)\<close>

record XPMOptions =
  optName :: string
  useRelativePaths :: bool
  outputDirectory :: "string option"

text \<open>
  \<^verbatim>\<open>formatSamplePath\<close>: the characters \<^verbatim>\<open>\ / : * ? " < > |\<close> of the name become \<open>_\<close>; an output
  directory counts when it is given and not empty.
\<close>

definition cleanChar :: "char \<Rightarrow> char" where
  \<open>cleanChar c = (if c = CHR 0x5C \<or> c \<in> set ''/:*?"<>|'' then CHR ''_'' else c)\<close>

definition formatSamplePath :: "XPMOptions \<Rightarrow> string \<Rightarrow> string" where
  "formatSamplePath options name =
     (if \<not> useRelativePaths options then name
      else
        let cleanName = map cleanChar name in
        case outputDirectory options of
          Some dir \<Rightarrow> if dir \<noteq> [] then ''./samples/'' @ cleanName else ''samples/'' @ cleanName
        | None \<Rightarrow> ''samples/'' @ cleanName)"

text \<open>
  The key range of entry \<open>index\<close> of the sorted entries, as the writer computes it from the
  neighbouring keys.
\<close>

definition entryLowKey :: "(int \<times> 'b Sample) list \<Rightarrow> nat \<Rightarrow> int" where
  "entryLowKey sortedEntries index =
     (let midiNote = fst (sortedEntries ! index) in
      if index > 0 then
        (let prevNote = fst (sortedEntries ! (index - 1)) in (prevNote + midiNote) div 2 + 1)
      else 0)"

definition entryHighKey :: "(int \<times> 'b Sample) list \<Rightarrow> nat \<Rightarrow> int" where
  "entryHighKey sortedEntries index =
     (let midiNote = fst (sortedEntries ! index) in
      if index < length sortedEntries - 1 then
        (let nextNote = fst (sortedEntries ! (index + 1)) in (midiNote + nextNote) div 2)
      else 127)"

text \<open>The text the callback of \<^verbatim>\<open>sortedEntries.forEach\<close> adds for one entry.\<close>

definition keygroupXml :: "XPMOptions \<Rightarrow> (int \<times> 'b Sample) list \<Rightarrow> nat \<Rightarrow> string" where
  \<open>keygroupXml options sortedEntries index =
     (let midiNote = fst (sortedEntries ! index);
          sample = snd (sortedEntries ! index);
          samplePath = formatSamplePath options (sampleName sample);
          lowKey = entryLowKey sortedEntries index;
          highKey = entryHighKey sortedEntries index
      in ''    <Keygroup index="'' @ showNat index @ ''">\<newline>'' @
         ''      <Zone>\<newline>'' @
         ''        <Sample name="'' @ sampleName sample @ ''" path="'' @ samplePath @ ''"/>\<newline>'' @
         ''        <KeyRange root="'' @ showInt midiNote @ ''" low="'' @ showInt lowKey @
           ''" high="'' @ showInt highKey @ ''"/>\<newline>'' @
         ''        <VelocityRange low="1" high="127"/>\<newline>'' @
         ''      </Zone>\<newline>'' @
         ''    </Keygroup>\<newline>'')\<close>

text \<open>
  \<^verbatim>\<open>generateInstrumentXPM\<close>. The key mapping is a map from MIDI notes to samples; its entries
  are given here in the order of insertion, and the writer sorts them by key.
\<close>

definition generateInstrumentXPM :: "XPMOptions \<Rightarrow> (int \<times> 'b Sample) list \<Rightarrow> string" where
  \<open>generateInstrumentXPM options keyMapping =
     (let sortedEntries = sort_key fst keyMapping in
      ''<?xml version="1.0" encoding="UTF-8"?>\<newline>'' @
      ''<KeygroupProgram name="'' @ optName options @ ''">\<newline>'' @
      ''  <Keygroups>\<newline>'' @
      concat (map (keygroupXml options sortedEntries) [0 ..< length sortedEntries]) @
      ''  </Keygroups>\<newline>'' @
      ''</KeygroupProgram>'')\<close>

subsection \<open>The writer of an instrument (xpm-writer)\<close>

text \<open>
  \<^verbatim>\<open>XPMWriter\<close> is the writer the instrument service applies to an instrument. Its zones are
  the records \<open>ExportZone\<close> above. The sample manager is a map from sample ids to samples.
\<close>

datatype WriterProgramType = KeygroupType | DrumkitType

fun programTypeText :: "WriterProgramType \<Rightarrow> string" where
  "programTypeText KeygroupType = ''keygroup''"
| "programTypeText DrumkitType = ''drumkit''"

text \<open>
  \<^verbatim>\<open>createZonesFromInstrument\<close>: a layer without a sample id (\<^verbatim>\<open>null\<close> or the empty text) and a
  layer whose sample the sample manager does not know are left out.
\<close>

definition createZonesFromInstrument :: "(string \<rightharpoonup> 'b Sample) \<Rightarrow> Instrument \<Rightarrow> ExportZone list" where
  "createZonesFromInstrument getSample instrument =
     concat (map (\<lambda>keygroup.
       concat (map (\<lambda>layer.
         case sampleId layer of
           None \<Rightarrow> []
         | Some sid \<Rightarrow>
             if sid = [] then []
             else (case getSample sid of
                     None \<Rightarrow> []
                   | Some sample \<Rightarrow>
                       [\<lparr>z_file = sampleName sample,
                         z_root = rootNote keygroup,
                         z_low = lowNote keygroup,
                         z_high = highNote keygroup,
                         velLow = lowVelocity layer,
                         velHigh = highVelocity layer\<rparr>]))
         (velocityLayers keygroup)))
       (keygroups instrument))"

text \<open>The line the loop over the zones adds for one zone.\<close>

definition zoneXml :: "ExportZone \<Rightarrow> string" where
  \<open>zoneXml zone =
     ''    <Zone file="'' @ z_file zone @ ''" root="'' @ showInt (z_root zone) @
     ''" low="'' @ showInt (z_low zone) @ ''" high="'' @ showInt (z_high zone) @
     ''" vel_low="'' @ showInt (velLow zone) @ ''" vel_high="'' @ showInt (velHigh zone) @
     ''" />\<newline>''\<close>

text \<open>
  \<^verbatim>\<open>generateXPMContent\<close>. The text of \<^verbatim>\<open>new Date().toISOString()\<close> is the parameter
  \<open>created\<close>. All zones go into one \<^verbatim>\<open>Keygroup\<close> element.
\<close>

definition generateXPMContent ::
  "string \<Rightarrow> WriterProgramType \<Rightarrow> string \<Rightarrow> ExportZone list \<Rightarrow> string" where
  \<open>generateXPMContent instrumentName programType created zones =
     ''<?xml version="1.0" encoding="UTF-8"?>\<newline>'' @
     ''<PluginProgram name="'' @ instrumentName @ ''" type="'' @ programTypeText programType @ ''">\<newline>'' @
     ''  <ProgramInfo>\<newline>'' @
     ''    <Name>'' @ instrumentName @ ''</Name>\<newline>'' @
     ''    <Type>'' @ programTypeText programType @ ''</Type>\<newline>'' @
     ''    <Created>'' @ created @ ''</Created>\<newline>'' @
     ''  </ProgramInfo>\<newline>'' @
     ''  <Keygroup>\<newline>'' @
     concat (map zoneXml zones) @
     ''  </Keygroup>\<newline>'' @
     ''</PluginProgram>''\<close>

definition createXPM ::
  "string \<Rightarrow> WriterProgramType \<Rightarrow> string \<Rightarrow> (string \<rightharpoonup> 'b Sample) \<Rightarrow> Instrument \<Rightarrow> string" where
  "createXPM instrumentName programType created getSample instrument =
     generateXPMContent instrumentName programType created
       (createZonesFromInstrument getSample instrument)"

text \<open>
  \<^verbatim>\<open>InstrumentService.exportInstrument\<close> without the multi-layer option: it throws when the
  registry has no instrument of that id (\<open>None\<close>), and otherwise writes the instrument with
  \<^verbatim>\<open>new XPMWriter(options.name)\<close>, whose program type is \<^verbatim>\<open>keygroup\<close>. (Under \<^verbatim>\<open>fixXPM\<close> it
  validates afterwards and logs; the text is not changed.)
\<close>

definition exportInstrument ::
  "(string \<rightharpoonup> Instrument) \<Rightarrow> (string \<rightharpoonup> 'b Sample) \<Rightarrow> string \<Rightarrow> string \<Rightarrow> string \<Rightarrow> string option" where
  "exportInstrument instruments getSample created instrumentId name =
     (case instruments instrumentId of
        None \<Rightarrow> None
      | Some instrument \<Rightarrow> Some (createXPM name KeygroupType created getSample instrument))"

subsection \<open>The reader (xpm-importer)\<close>

record XPMSample =
  xs_name :: string
  xs_path :: string

record XPMZone =
  zoneSample :: XPMSample
  keyRoot :: "int option"
  keyLowBound :: "int option"
  keyHighBound :: "int option"
  velocityLow :: "int option"
  velocityHigh :: "int option"

record XPMKeygroup =
  kgIndex :: "int option"
  zones :: "XPMZone list"

text \<open>\<^verbatim>\<open>element.getAttribute(a) || fallback\<close>: a missing and an empty value both fall back.\<close>

definition attributeOr :: "xml option \<Rightarrow> string \<Rightarrow> string \<Rightarrow> string" where
  "attributeOr element a fallback =
     (case element of
        None \<Rightarrow> fallback
      | Some e \<Rightarrow> (case getAttribute e a of
                     None \<Rightarrow> fallback
                   | Some v \<Rightarrow> if v = [] then fallback else v))"

text \<open>The callback of \<^verbatim>\<open>zoneElements.forEach\<close>: a zone without a sample element is left out.\<close>

definition extractZone :: "xml \<Rightarrow> XPMZone list" where
  "extractZone zoneElement =
     (case querySelector zoneElement ''Sample'' of
        None \<Rightarrow> []
      | Some sampleElement \<Rightarrow>
          let name = attributeOr (Some sampleElement) ''name'' [];
              samplePath = attributeOr (Some sampleElement) ''path'' name;
              keyRangeElement = querySelector zoneElement ''KeyRange'';
              velocityRangeElement = querySelector zoneElement ''VelocityRange''
          in [\<lparr>zoneSample = \<lparr>xs_name = name, xs_path = samplePath\<rparr>,
               keyRoot = parseInt (attributeOr keyRangeElement ''root'' ''60''),
               keyLowBound = parseInt (attributeOr keyRangeElement ''low'' ''0''),
               keyHighBound = parseInt (attributeOr keyRangeElement ''high'' ''127''),
               velocityLow = parseInt (attributeOr velocityRangeElement ''low'' ''1''),
               velocityHigh = parseInt (attributeOr velocityRangeElement ''high'' ''127'')\<rparr>])"

definition extractKeygroup :: "nat \<Rightarrow> xml \<Rightarrow> XPMKeygroup" where
  "extractKeygroup index keygroupElement =
     \<lparr>kgIndex = parseInt (attributeOr (Some keygroupElement) ''index'' (showNat index)),
      zones = concat (map extractZone (querySelectorAll keygroupElement ''Zone''))\<rparr>"

definition extractKeygroups :: "xml \<Rightarrow> XPMKeygroup list" where
  "extractKeygroups xmlDoc =
     (let keygroupElements = documentQuerySelectorAll xmlDoc ''Keygroup''
      in map (\<lambda>(index, keygroupElement). extractKeygroup index keygroupElement)
             (zip [0 ..< length keygroupElements] keygroupElements))"

text \<open>\<^verbatim>\<open>toLowerCase\<close> on the characters an element name of the parser model can contain.\<close>

definition toLowerChar :: "char \<Rightarrow> char" where
  "toLowerChar c = (case map_of (zip ''ABCDEFGHIJKLMNOPQRSTUVWXYZ'' ''abcdefghijklmnopqrstuvwxyz'') c of
                      Some l \<Rightarrow> l | None \<Rightarrow> c)"

datatype ProgramType = DrumkitProgram | InstrumentProgram

definition determineProgramType :: "xml \<Rightarrow> ProgramType" where
  "determineProgramType rootElement =
     (let nodeName = map toLowerChar (tagName rootElement) in
      if nodeName = ''drumprogram'' \<or>
         (nodeName = ''pluginprogram'' \<and> getAttribute rootElement ''type'' = Some ''drumkit'')
      then DrumkitProgram
      else InstrumentProgram)"

record XPMProgram =
  programName :: string
  programType :: ProgramType
  programKeygroups :: "XPMKeygroup list option"

text \<open>
  \<^verbatim>\<open>parseXPMContent\<close>: it throws when the parser reports an error, and otherwise reads the name,
  the type and, for an instrument, the keygroups. The pads of a drum kit and the list of the
  sample paths, which is collected from the zones afterwards, are not modelled. For a text
  outside of the parser model the result is \<open>Inl OutsideModel\<close>, which says nothing about the
  code.
\<close>

definition parseXPMContent :: "string \<Rightarrow> ParseFailure + XPMProgram" where
  "parseXPMContent content =
     (case parseFromString content of
        NotParsed f \<Rightarrow> Inl f
      | Parsed rootElement \<Rightarrow>
          if documentQuerySelectorAll rootElement ''parsererror'' \<noteq> [] then Inl Malformed
          else
            let programType = determineProgramType rootElement;
                name = attributeOr (Some rootElement) ''name'' ''Imported Program''
            in Inr \<lparr>programName = name,
                    programType = programType,
                    programKeygroups = (if programType = InstrumentProgram
                                        then Some (extractKeygroups rootElement) else None)\<rparr>)"

subsection \<open>Writing a key mapping and reading it back\<close>

text \<open>The parser run over a piece of text, from a given state.\<close>

definition run :: "ParserState \<Rightarrow> string \<Rightarrow> ParserState" where
  "run st s = foldl parserStep st s"

text \<open>
  The writer puts names between double quotes as they are. A name is read back as it was
  written when it has no double quote, no \<open><\<close>, no \<open>&\<close> and no control character (the parser
  turns a tab or a line break inside a value into a space).
\<close>

definition attrSafeChar :: "char \<Rightarrow> bool" where
  "attrSafeChar c = (c \<noteq> CHR 0x22 \<and> c \<noteq> CHR ''<'' \<and> c \<noteq> CHR ''&'' \<and>
                     c \<noteq> CHR 0x09 \<and> c \<noteq> CHR 0x0A \<and> c \<noteq> CHR 0x0D \<and> \<not> isControl c)"

definition attrSafe :: "string \<Rightarrow> bool" where
  "attrSafe s = list_all attrSafeChar s"

text \<open>The element tree of the text the writer emits.\<close>

definition keygroupElement :: "XPMOptions \<Rightarrow> (int \<times> 'b Sample) list \<Rightarrow> nat \<Rightarrow> xml" where
  "keygroupElement options sortedEntries index =
     Element ''Keygroup'' [(''index'', showNat index)]
       [Element ''Zone'' []
          [Element ''Sample''
             [(''name'', sampleName (snd (sortedEntries ! index))),
              (''path'', formatSamplePath options (sampleName (snd (sortedEntries ! index))))] [],
           Element ''KeyRange''
             [(''root'', showInt (fst (sortedEntries ! index))),
              (''low'', showInt (entryLowKey sortedEntries index)),
              (''high'', showInt (entryHighKey sortedEntries index))] [],
           Element ''VelocityRange'' [(''low'', ''1''), (''high'', ''127'')] []]]"

definition programElement :: "XPMOptions \<Rightarrow> (int \<times> 'b Sample) list \<Rightarrow> xml" where
  "programElement options sortedEntries =
     Element ''KeygroupProgram'' [(''name'', optName options)]
       [Element ''Keygroups'' []
          (map (keygroupElement options sortedEntries) [0 ..< length sortedEntries])]"

text \<open>The zone the reader returns for entry \<open>index\<close> of the sorted entries.\<close>

definition expectedZone :: "XPMOptions \<Rightarrow> (int \<times> 'b Sample) list \<Rightarrow> nat \<Rightarrow> XPMZone" where
  "expectedZone options sortedEntries index =
     \<lparr>zoneSample = \<lparr>xs_name = sampleName (snd (sortedEntries ! index)),
                     xs_path = formatSamplePath options (sampleName (snd (sortedEntries ! index)))\<rparr>,
      keyRoot = Some (fst (sortedEntries ! index)),
      keyLowBound = Some (entryLowKey sortedEntries index),
      keyHighBound = Some (entryHighKey sortedEntries index),
      velocityLow = Some 1,
      velocityHigh = Some 127\<rparr>"

text \<open>
  A text between two tags is read as written when, in addition, it has no \<open>>\<close> (the parser
  model leaves a text with one aside).
\<close>

definition textSafe :: "string \<Rightarrow> bool" where
  "textSafe s = (attrSafe s \<and> CHR ''>'' \<notin> set s)"

text \<open>The element tree of the text the writer of an instrument emits.\<close>

definition zoneElement :: "ExportZone \<Rightarrow> xml" where
  "zoneElement zone =
     Element ''Zone''
       [(''file'', z_file zone), (''root'', showInt (z_root zone)), (''low'', showInt (z_low zone)),
        (''high'', showInt (z_high zone)), (''vel_low'', showInt (velLow zone)),
        (''vel_high'', showInt (velHigh zone))] []"

definition pluginProgramElement :: "string \<Rightarrow> WriterProgramType \<Rightarrow> ExportZone list \<Rightarrow> xml" where
  "pluginProgramElement instrumentName writerType exportZones =
     Element ''PluginProgram'' [(''name'', instrumentName), (''type'', programTypeText writerType)]
       [Element ''ProgramInfo'' []
          [Element ''Name'' [] [], Element ''Type'' [] [], Element ''Created'' [] []],
        Element ''Keygroup'' [] (map zoneElement exportZones)]"

definition exampleOptions :: XPMOptions where
  "exampleOptions = \<lparr>optName = ''piano'', useRelativePaths = True, outputDirectory = None\<rparr>"

text \<open>The samples of the example instrument, and a time of writing.\<close>

definition exampleRegistry :: "string \<rightharpoonup> unit Sample" where
  "exampleRegistry =
     [''s1'' \<mapsto> \<lparr>sampleName = ''Piano_C4.wav'', buffer = Some ()\<rparr>,
      ''s2'' \<mapsto> \<lparr>sampleName = ''Piano_C3.wav'', buffer = Some ()\<rparr>,
      ''s3'' \<mapsto> \<lparr>sampleName = ''Piano_C5.wav'', buffer = Some ()\<rparr>]"

definition exampleCreated :: string where
  "exampleCreated = ''2024-01-01T00:00:00.000Z''"

subsubsection \<open>The parser on the text of the writer\<close>

lemma run_simps [simp]: "run st [] = st" "run st (c # cs) = run (parserStep st c) cs"
  by (simp_all add: run_def)

lemma run_append: "run st (a @ b) = run (run st a) b"
  by (simp add: run_def)

lemmas char_class_defs = isSpace_def isNameStart_def isNameChar_def isLetter_def isDigit_def isControl_def
  afterName_def openElement_def addElement_def closeElement_def

lemma run_value:
  "attrSafe w \<Longrightarrow>
   run (stack, r, AttrValue n as a (CHR 0x22) v) w = (stack, r, AttrValue n as a (CHR 0x22) (v @ w))"
proof (induction w arbitrary: v)
  case Nil
  show ?case by simp
next
  case (Cons c w)
  then have c: "attrSafeChar c" and w: "attrSafe w" by (simp_all add: attrSafe_def)
  have "parserStep (stack, r, AttrValue n as a (CHR 0x22) v) c = (stack, r, AttrValue n as a (CHR 0x22) (v @ [c]))"
    using c by (auto simp: attrSafeChar_def isSpace_def)
  then show ?case using Cons.IH[OF w] by simp
qed

lemma attrSafe_append [simp]: "attrSafe (a @ b) \<longleftrightarrow> attrSafe a \<and> attrSafe b"
  by (simp add: attrSafe_def)

lemma digitChar_safe: "attrSafeChar (digitChar n)"
proof -
  have "list_all attrSafeChar ''0123456789''"
    by (simp add: attrSafeChar_def isControl_def isSpace_def)
  then have "\<forall>k<length ''0123456789''. attrSafeChar (''0123456789'' ! k)"
    by (simp only: list_all_length)
  then show ?thesis by (simp add: digitChar_def)
qed

lemma attrSafe_showNat [simp]: "attrSafe (showNat n)"
proof (induction n rule: showNat.induct)
  case (1 n)
  show ?case
  proof (cases "n < 10")
    case True
    then show ?thesis by (subst showNat.simps) (simp add: attrSafe_def digitChar_safe)
  next
    case False
    then show ?thesis using 1 by (subst showNat.simps) (simp add: attrSafe_def digitChar_safe)
  qed
qed

lemma attrSafe_showInt [simp]: "attrSafe (showInt k)"
proof -
  have "attrSafeChar (CHR ''-'')" by (simp add: attrSafeChar_def isControl_def isSpace_def)
  then show ?thesis using attrSafe_showNat by (simp add: showInt_def attrSafe_def)
qed

lemma attrSafe_formatSamplePath [simp]:
  assumes "attrSafe name"
  shows "attrSafe (formatSamplePath options name)"
proof -
  have c: "attrSafeChar (cleanChar c)" if "attrSafeChar c" for c
    using that by (auto simp: cleanChar_def attrSafeChar_def isControl_def isSpace_def)
  have "attrSafe (map cleanChar name)" using assms c by (simp add: attrSafe_def list_all_iff)
  then show ?thesis using assms
    by (simp add: formatSamplePath_def Let_def attrSafe_def attrSafeChar_def isControl_def isSpace_def
             split: option.splits)
qed

lemma run_keygroupXml:
  assumes "attrSafe (sampleName (snd (sortedEntries ! index)))"
  shows "run ((n, as, cs) # stack, r, InText) (keygroupXml options sortedEntries index)
         = ((n, as, cs @ [keygroupElement options sortedEntries index]) # stack, r, InText)"
  unfolding keygroupXml_def keygroupElement_def Let_def
  using assms
  by (simp add: run_append run_value char_class_defs)

lemma run_keygroups:
  assumes "\<forall>i \<in> set is. attrSafe (sampleName (snd (sortedEntries ! i)))"
  shows "run ((n, as, cs) # stack, r, InText) (concat (map (keygroupXml options sortedEntries) is))
         = ((n, as, cs @ map (keygroupElement options sortedEntries) is) # stack, r, InText)"
  using assms
proof (induction "is" arbitrary: cs)
  case Nil
  show ?case by simp
next
  case (Cons i "is")
  then show ?case by (simp add: run_append run_keygroupXml)
qed

lemma parse_generateInstrumentXPM:
  assumes "attrSafe (optName options)"
    and "\<forall>e \<in> set keyMapping. attrSafe (sampleName (snd e))"
  shows "parseFromString (generateInstrumentXPM options keyMapping)
         = Parsed (programElement options (sort_key fst keyMapping))"
proof -
  define sorted where "sorted = sort_key fst keyMapping"
  define blocks where "blocks = concat (map (keygroupXml options sorted) [0 ..< length sorted])"
  have safe: "\<forall>i \<in> set [0 ..< length sorted]. attrSafe (sampleName (snd (sorted ! i)))"
  proof
    fix i assume "i \<in> set [0 ..< length sorted]"
    then have "sorted ! i \<in> set sorted" by simp
    then have "sorted ! i \<in> set keyMapping" by (simp add: sorted_def)
    then show "attrSafe (sampleName (snd (sorted ! i)))" using assms(2) by blast
  qed
  have doc: \<open>generateInstrumentXPM options keyMapping =
      xmlDeclaration @ ''\<newline><KeygroupProgram name="'' @ optName options @ ''">\<newline>  <Keygroups>\<newline>'' @
      blocks @ ''  </Keygroups>\<newline></KeygroupProgram>''\<close>
    by (simp add: generateInstrumentXPM_def Let_def sorted_def blocks_def xmlDeclaration_def)
  have len: "length xmlDeclaration = 38" by (simp add: xmlDeclaration_def)
  have body: \<open>parseFromString (generateInstrumentXPM options keyMapping) =
      parserFinish (run ([], None, InText)
        (''\<newline><KeygroupProgram name="'' @ optName options @ ''">\<newline>  <Keygroups>\<newline>'' @
         blocks @ ''  </Keygroups>\<newline></KeygroupProgram>''))\<close>
    unfolding doc parseFromString_def Let_def run_def by simp
  have r1: \<open>run ([], None, InText) (''\<newline><KeygroupProgram name="'' @ optName options @ ''">\<newline>  <Keygroups>\<newline>'')
        = ([(''Keygroups'', [], []), (''KeygroupProgram'', [(''name'', optName options)], [])], None, InText)\<close>
    using assms(1) by (simp add: run_append run_value char_class_defs)
  have r2: "run ([(''Keygroups'', [], []), (''KeygroupProgram'', [(''name'', optName options)], [])], None, InText) blocks
        = ([(''Keygroups'', [], map (keygroupElement options sorted) [0 ..< length sorted]),
            (''KeygroupProgram'', [(''name'', optName options)], [])], None, InText)"
    unfolding blocks_def using run_keygroups[OF safe, of "''Keygroups''" "[]" "[]"] by simp
  have r3: \<open>run ([(''Keygroups'', [], kgs), (''KeygroupProgram'', [(''name'', optName options)], [])], None, InText)
             ''  </Keygroups>\<newline></KeygroupProgram>''
        = ([], Some (Element ''KeygroupProgram'' [(''name'', optName options)] [Element ''Keygroups'' [] kgs]), InText)\<close> for kgs
    by (simp add: char_class_defs)
  have "run ([], None, InText)
        (''\<newline><KeygroupProgram name=\"'' @ optName options @ ''\">\<newline>  <Keygroups>\<newline>'' @
         blocks @ ''  </Keygroups>\<newline></KeygroupProgram>'')
      = ([], Some (programElement options sorted), InText)"
    using r1 r2 r3 by (simp only: run_append append_assoc[symmetric] programElement_def)
  then show ?thesis
    unfolding body sorted_def by (simp add: parserFinish_def)
qed

lemma digit_facts:
  "list_all isDigit ''0123456789''"
  "list_all (\<lambda>c. \<not> isSpace c \<and> c \<noteq> CHR ''-'' \<and> c \<noteq> CHR ''+'') ''0123456789''"
  "map digitValue ''0123456789'' = [0, 1, 2, 3, 4, 5, 6, 7, 8, 9]"
  by (simp_all add: isDigit_def isSpace_def digitValue_def)

lemma digitChar_facts:
  "isDigit (digitChar n)" "\<not> isSpace (digitChar n)" "digitChar n \<noteq> CHR ''-''" "digitChar n \<noteq> CHR ''+''"
  "digitValue (digitChar n) = int (n mod 10)"
proof -
  have k: "n mod 10 < length ''0123456789''" by simp
  show "isDigit (digitChar n)"
    using digit_facts(1) k unfolding digitChar_def list_all_length by blast
  show "\<not> isSpace (digitChar n)" "digitChar n \<noteq> CHR ''-''" "digitChar n \<noteq> CHR ''+''"
    using digit_facts(2) k unfolding digitChar_def list_all_length by blast+
  have "digitValue (''0123456789'' ! (n mod 10)) = map digitValue ''0123456789'' ! (n mod 10)"
    using k by (simp only: nth_map)
  also have "\<dots> = [0, 1, 2, 3, 4, 5, 6, 7, 8, 9] ! (n mod 10)" by (simp only: digit_facts(3))
  also have "\<dots> = int (n mod 10)"
  proof -
    have "\<forall>k<10. [0, 1, 2, 3, 4, 5, 6, 7, 8, 9 :: int] ! k = int k"
      by (simp add: nth_Cons' All_less_Suc numeral_eq_Suc)
    then show ?thesis by simp
  qed
  finally show "digitValue (digitChar n) = int (n mod 10)" by (simp add: digitChar_def)
qed

lemma showNat_digits: "showNat n \<noteq> [] \<and> list_all isDigit (showNat n) \<and> digitsValue (showNat n) = int n"
proof (induction n rule: showNat.induct)
  case (1 n)
  show ?case
  proof (cases "n < 10")
    case True
    then show ?thesis
      by (subst (1 2 3) showNat.simps) (simp add: digitChar_facts digitsValue_def)
  next
    case False
    have dv: "digitsValue (xs @ [d]) = 10 * digitsValue xs + digitValue d" for xs d
      by (simp add: digitsValue_def)
    have "int n = int (10 * (n div 10) + n mod 10)" by simp
    then have "int n = 10 * int (n div 10) + int (n mod 10)" by (simp only: of_nat_add of_nat_mult of_nat_numeral)
    then show ?thesis using False 1
      by (subst (1 2 3) showNat.simps) (simp add: digitChar_facts dv)
  qed
qed

lemma isDigit_not_space: "isDigit c \<Longrightarrow> \<not> isSpace c \<and> c \<noteq> CHR ''-'' \<and> c \<noteq> CHR ''+''"
  by (auto simp: isDigit_def isSpace_def)

lemma parseInt_digits:
  assumes "ds \<noteq> []" "list_all isDigit ds"
  shows "parseInt ds = Some (digitsValue ds)"
    and "parseInt (CHR ''-'' # ds) = Some (- digitsValue ds)"
proof -
  obtain c cs where ds: "ds = c # cs" using assms(1) by (cases ds) auto
  have c: "isDigit c" "\<not> isSpace c" "c \<noteq> CHR ''-''" "c \<noteq> CHR ''+''"
    using assms(2) isDigit_not_space[of c] by (simp_all add: ds)
  have tw: "takeWhile isDigit ds = ds"
    using assms(2) by (simp add: takeWhile_eq_all_conv list_all_iff)
  have dw: "dropWhile isSpace ds = ds" using c by (simp add: ds)
  have sp: "(case ds of
               c # cs \<Rightarrow> if c = CHR ''-'' then (True, cs)
                         else if c = CHR ''+'' then (False, cs) else (False, ds)
             | [] \<Rightarrow> (False, ds)) = (False, ds)"
    using c by (simp add: ds)
  show "parseInt ds = Some (digitsValue ds)"
    unfolding parseInt_def dw Let_def sp prod.case tw using assms(1) by simp
  have m: "\<not> isSpace (CHR ''-'')" by (simp add: isSpace_def)
  have dw': "dropWhile isSpace (CHR ''-'' # ds) = CHR ''-'' # ds" using m by simp
  have sp': "(case CHR ''-'' # ds of
               c # cs \<Rightarrow> if c = CHR ''-'' then (True, cs)
                         else if c = CHR ''+'' then (False, cs) else (False, CHR ''-'' # ds)
             | [] \<Rightarrow> (False, CHR ''-'' # ds)) = (True, ds)"
    by simp
  show "parseInt (CHR ''-'' # ds) = Some (- digitsValue ds)"
    unfolding parseInt_def dw' Let_def sp' prod.case tw using assms(1) by simp
qed

lemma parseInt_showNat [simp]: "parseInt (showNat n) = Some (int n)"
  using parseInt_digits(1)[of "showNat n"] showNat_digits[of n] by simp

lemma parseInt_showInt [simp]: "parseInt (showInt k) = Some k"
  using parseInt_digits(2)[of "showNat (nat (- k))"] showNat_digits[of "nat (- k)"]
  by (simp add: showInt_def)

lemma showInt_nonempty [simp]: "showInt k \<noteq> []" "showNat n \<noteq> []"
  using showNat_digits by (auto simp: showInt_def)

lemma formatSamplePath_empty:
  "formatSamplePath options name = [] \<Longrightarrow> name = []"
  by (auto simp: formatSamplePath_def Let_def split: if_splits option.splits)

lemma extractKeygroup_keygroupElement:
  "extractKeygroup index (keygroupElement options sortedEntries index)
   = \<lparr>kgIndex = Some (int index), zones = [expectedZone options sortedEntries index]\<rparr>"
proof -
  have one: "parseInt ''1'' = Some 1" and max: "parseInt ''127'' = Some 127"
    by (simp_all add: parseInt_def isSpace_def isDigit_def digitsValue_def digitValue_def)
  have path: "(if formatSamplePath options name = [] then (if name = [] then [] else name)
               else formatSamplePath options name) = formatSamplePath options name" for name
    using formatSamplePath_empty[of options name] by auto
  show ?thesis
    unfolding extractKeygroup_def keygroupElement_def expectedZone_def
    using formatSamplePath_empty[of options "sampleName (snd (sortedEntries ! index))"]
    by (auto simp add: querySelectorAll_def querySelector_def extractZone_def attributeOr_def
          getAttribute_def Let_def one max)
qed

lemma filter_keygroup_descendants:
  "filter (\<lambda>d. tagName d = ''Keygroup'')
     (concat (map (\<lambda>c. c # descendants c) (map (keygroupElement options sortedEntries) is)))
   = map (keygroupElement options sortedEntries) is"
  by (induction "is") (simp_all add: keygroupElement_def)

lemma filter_parsererror_descendants:
  "filter (\<lambda>d. tagName d = ''parsererror'')
     (concat (map (\<lambda>c. c # descendants c) (map (keygroupElement options sortedEntries) is)))
   = []"
  by (induction "is") (simp_all add: keygroupElement_def)

lemma zip_upt_map: "zip [0 ..< n] (map f [0 ..< n]) = map (\<lambda>i. (i, f i)) [0 ..< n]"
  by (simp add: zip_map2 zip_same_conv_map)

lemma extractKeygroups_programElement:
  "extractKeygroups (programElement options sortedEntries)
   = map (\<lambda>index. \<lparr>kgIndex = Some (int index), zones = [expectedZone options sortedEntries index]\<rparr>)
         [0 ..< length sortedEntries]"
proof -
  have q: "documentQuerySelectorAll (programElement options sortedEntries) ''Keygroup''
           = map (keygroupElement options sortedEntries) [0 ..< length sortedEntries]"
    unfolding documentQuerySelectorAll_def programElement_def
    using filter_keygroup_descendants[of options sortedEntries "[0 ..< length sortedEntries]"]
    by simp
  show ?thesis
    unfolding extractKeygroups_def q Let_def
    by (simp add: zip_upt_map comp_def extractKeygroup_keygroupElement)
qed

lemma determineProgramType_programElement:
  "determineProgramType (programElement options sortedEntries) = InstrumentProgram"
  by (simp add: determineProgramType_def programElement_def toLowerChar_def)

text \<open>
  What the reader returns for the text the writer emits for any key mapping with safe names:
  one keygroup per entry, in ascending order of key, each with one zone.
\<close>

lemma generateInstrumentXPM_read_back:
  assumes "attrSafe (optName options)"
    and "\<forall>e \<in> set keyMapping. attrSafe (sampleName (snd e))"
  shows "parseXPMContent (generateInstrumentXPM options keyMapping)
         = Inr \<lparr>programName = (if optName options = [] then ''Imported Program'' else optName options),
                programType = InstrumentProgram,
                programKeygroups =
                  Some (map (\<lambda>index. \<lparr>kgIndex = Some (int index),
                                        zones = [expectedZone options (sort_key fst keyMapping) index]\<rparr>)
                            [0 ..< length keyMapping])\<rparr>"
proof -
  have pe: "documentQuerySelectorAll (programElement options (sort_key fst keyMapping)) ''parsererror'' = []"
    unfolding documentQuerySelectorAll_def programElement_def
    using filter_parsererror_descendants[of options "sort_key fst keyMapping" "[0 ..< length keyMapping]"]
    by simp
  have name: "attributeOr (Some (programElement options sortedEntries)) ''name'' ''Imported Program''
              = (if optName options = [] then ''Imported Program'' else optName options)" for sortedEntries
    by (simp add: attributeOr_def getAttribute_def programElement_def)
  show ?thesis
    unfolding parseXPMContent_def parse_generateInstrumentXPM[OF assms]
    by (simp add: pe extractKeygroups_programElement determineProgramType_programElement name Let_def)
qed

subsubsection \<open>The reader on the text of the instrument writer\<close>

lemma run_text:
  "textSafe w \<Longrightarrow> run (f # stack, r, InText) w = (f # stack, r, InText)"
proof (induction w)
  case Nil
  show ?case by simp
next
  case (Cons c w)
  then have c: "attrSafeChar c" "c \<noteq> CHR ''>''" and w: "textSafe w"
    by (auto simp: textSafe_def attrSafe_def)
  have "parserStep (f # stack, r, InText) c = (f # stack, r, InText)"
    using c by (auto simp: attrSafeChar_def)
  then show ?case using Cons.IH[OF w] by simp
qed

lemma run_zoneXml:
  assumes "attrSafe (z_file zone)"
  shows "run ((n, as, cs) # stack, r, InText) (zoneXml zone)
         = ((n, as, cs @ [zoneElement zone]) # stack, r, InText)"
  unfolding zoneXml_def zoneElement_def
  using assms
  by (simp add: run_append run_value char_class_defs)

lemma run_zones:
  assumes "\<forall>zone \<in> set exportZones. attrSafe (z_file zone)"
  shows "run ((n, as, cs) # stack, r, InText) (concat (map zoneXml exportZones))
         = ((n, as, cs @ map zoneElement exportZones) # stack, r, InText)"
  using assms
proof (induction exportZones arbitrary: cs)
  case Nil
  show ?case by simp
next
  case (Cons zone exportZones)
  then show ?case by (simp add: run_append run_zoneXml)
qed

lemma textSafe_programTypeText: "textSafe (programTypeText writerType)"
  by (cases writerType)
     (simp_all add: textSafe_def attrSafe_def attrSafeChar_def isControl_def isSpace_def)

lemma parse_generateXPMContent:
  assumes "textSafe instrumentName" and "textSafe created"
    and "\<forall>zone \<in> set exportZones. attrSafe (z_file zone)"
  shows "parseFromString (generateXPMContent instrumentName writerType created exportZones)
         = Parsed (pluginProgramElement instrumentName writerType exportZones)"
proof -
  define blocks where "blocks = concat (map zoneXml exportZones)"
  define ty where "ty = programTypeText writerType"
  have ty: "textSafe ty" "attrSafe ty"
    using textSafe_programTypeText[of writerType] by (simp_all add: ty_def textSafe_def)
  have nm: "attrSafe instrumentName" using assms(1) by (simp add: textSafe_def)
  define head where \<open>head = ''\<newline><PluginProgram name="'' @ instrumentName @ ''" type="'' @ ty @ ''">\<newline>'' @
      ''  <ProgramInfo>\<newline>'' @
      ''    <Name>'' @ instrumentName @ ''</Name>\<newline>'' @
      ''    <Type>'' @ ty @ ''</Type>\<newline>'' @
      ''    <Created>'' @ created @ ''</Created>\<newline>'' @
      ''  </ProgramInfo>\<newline>'' @
      ''  <Keygroup>\<newline>''\<close>
  have doc: \<open>generateXPMContent instrumentName writerType created exportZones =
      xmlDeclaration @ head @ blocks @ ''  </Keygroup>\<newline></PluginProgram>''\<close>
    by (simp add: generateXPMContent_def blocks_def xmlDeclaration_def ty_def head_def)
  have body: \<open>parseFromString (generateXPMContent instrumentName writerType created exportZones) =
      parserFinish (run ([], None, InText) (head @ blocks @ ''  </Keygroup>\<newline></PluginProgram>''))\<close>
    unfolding doc parseFromString_def Let_def run_def by (simp add: xmlDeclaration_def)
  define info where "info = Element ''ProgramInfo'' []
          [Element ''Name'' [] [], Element ''Type'' [] [], Element ''Created'' [] []]"
  have r1: \<open>run ([], None, InText) head
        = ([(''Keygroup'', [], []),
            (''PluginProgram'', [(''name'', instrumentName), (''type'', ty)], [info])], None, InText)\<close>
    unfolding head_def info_def
    using nm ty assms(1,2) by (simp add: run_append run_value run_text char_class_defs)
  have r2: "run ([(''Keygroup'', [], []),
            (''PluginProgram'', [(''name'', instrumentName), (''type'', ty)], [info])], None, InText) blocks
        = ([(''Keygroup'', [], map zoneElement exportZones),
            (''PluginProgram'', [(''name'', instrumentName), (''type'', ty)], [info])], None, InText)"
    unfolding blocks_def using run_zones[OF assms(3), of "''Keygroup''" "[]" "[]"] by simp
  have r3: \<open>run ([(''Keygroup'', [], zs),
            (''PluginProgram'', [(''name'', instrumentName), (''type'', ty)], [info])], None, InText)
             ''  </Keygroup>\<newline></PluginProgram>''
        = ([], Some (Element ''PluginProgram'' [(''name'', instrumentName), (''type'', ty)]
                       [info, Element ''Keygroup'' [] zs]), InText)\<close> for zs
    by (simp add: char_class_defs)
  have "run ([], None, InText) (head @ blocks @ ''  </Keygroup>\<newline></PluginProgram>'')
      = ([], Some (pluginProgramElement instrumentName writerType exportZones), InText)"
    using r1 r2 r3 by (simp only: run_append pluginProgramElement_def info_def ty_def)
  then show ?thesis
    unfolding body by (simp add: parserFinish_def)
qed

lemma zone_descendants:
  "concat (map (\<lambda>c. c # descendants c) (map zoneElement exportZones)) = map zoneElement exportZones"
  by (induction exportZones) (simp_all add: zoneElement_def)

lemma zone_descendants_comp:
  "concat (map ((\<lambda>c. c # descendants c) \<circ> zoneElement) exportZones) = map zoneElement exportZones"
  using zone_descendants[of exportZones] by (simp only: map_map)

lemma extractZone_zoneElement: "extractZone (zoneElement zone) = []"
  by (simp add: extractZone_def zoneElement_def querySelector_def querySelectorAll_def)

text \<open>
  What the reader returns for the text the writer of an instrument emits, for any instrument
  and any samples with safe names: one keygroup without a zone.
\<close>

lemma createXPM_read_back:
  assumes "textSafe instrumentName" and "textSafe created"
    and "\<forall>sample \<in> ran getSample. attrSafe (sampleName sample)"
  shows "parseXPMContent (createXPM instrumentName KeygroupType created getSample instrument)
         = Inr \<lparr>programName = (if instrumentName = [] then ''Imported Program'' else instrumentName),
                programType = InstrumentProgram,
                programKeygroups = Some [\<lparr>kgIndex = Some 0, zones = []\<rparr>]\<rparr>"
proof -
  define zs where "zs = createZonesFromInstrument getSample instrument"
  have safe: "\<forall>zone \<in> set zs. attrSafe (z_file zone)"
    using assms(3) unfolding zs_def createZonesFromInstrument_def
    by (auto simp: ran_def split: option.splits if_splits) (metis)
  have tags: "filter (\<lambda>d. tagName d = t) (map zoneElement zs) = []" if "t \<noteq> ''Zone''" for t
    using that by (induction zs) (simp_all add: zoneElement_def)
  have zonesOnly: "filter (\<lambda>d. tagName d = ''Zone'') (map zoneElement zs) = map zoneElement zs"
    by (induction zs) (simp_all add: zoneElement_def)
  have pe: "documentQuerySelectorAll (pluginProgramElement instrumentName KeygroupType zs) ''parsererror'' = []"
    unfolding documentQuerySelectorAll_def pluginProgramElement_def
    by (simp add: zone_descendants zone_descendants_comp tags)
  have kg: "documentQuerySelectorAll (pluginProgramElement instrumentName KeygroupType zs) ''Keygroup''
            = [Element ''Keygroup'' [] (map zoneElement zs)]"
    unfolding documentQuerySelectorAll_def pluginProgramElement_def
    by (simp add: zone_descendants zone_descendants_comp tags)
  have zero: "parseInt (showNat 0) = Some 0" using parseInt_showNat[of 0] by simp
  have d: "descendants (Element ''Keygroup'' [] (map zoneElement zs)) = map zoneElement zs"
    by (simp only: descendants.simps zone_descendants)
  have q: "querySelectorAll (Element ''Keygroup'' [] (map zoneElement zs)) ''Zone'' = map zoneElement zs"
    unfolding querySelectorAll_def d by (rule zonesOnly)
  have c: "concat (map extractZone (map zoneElement zs)) = []"
    by (induction zs) (simp_all add: extractZone_zoneElement)
  have ex: "extractKeygroup 0 (Element ''Keygroup'' [] (map zoneElement zs)) = \<lparr>kgIndex = Some 0, zones = []\<rparr>"
    unfolding extractKeygroup_def q c
    by (simp add: attributeOr_def getAttribute_def zero del: showNat.simps)
  have ty: "determineProgramType (pluginProgramElement instrumentName KeygroupType zs) = InstrumentProgram"
    by (simp add: determineProgramType_def pluginProgramElement_def toLowerChar_def getAttribute_def)
  have name: "attributeOr (Some (pluginProgramElement instrumentName KeygroupType zs)) ''name'' ''Imported Program''
              = (if instrumentName = [] then ''Imported Program'' else instrumentName)"
    by (simp add: attributeOr_def getAttribute_def pluginProgramElement_def)
  show ?thesis
    unfolding parseXPMContent_def createXPM_def zs_def[symmetric]
      parse_generateXPMContent[OF assms(1,2) safe]
    by (simp add: pe kg ex ty name Let_def extractKeygroups_def)
qed

lemma exportInstrument_read_back:
  assumes "instruments instrumentId = Some instrument"
    and "textSafe instrumentName" and "textSafe created"
    and "\<forall>sample \<in> ran getSample. attrSafe (sampleName sample)"
  shows "map_option parseXPMContent (exportInstrument instruments getSample created instrumentId instrumentName)
         = Some (Inr \<lparr>programName = (if instrumentName = [] then ''Imported Program'' else instrumentName),
                       programType = InstrumentProgram,
                       programKeygroups = Some [\<lparr>kgIndex = Some 0, zones = []\<rparr>]\<rparr>)"
  using createXPM_read_back[OF assms(2-4), of instrument] assms(1)
  by (simp add: exportInstrument_def)

subsection \<open>The round trip of an auto-mapped instrument\<close>

text \<open>
  The reader reads back what the generator writes for a key mapping (lemma
  \<open>generateInstrumentXPM_read_back\<close>): there a zone is an element with a \<^verbatim>\<open>Sample\<close>, a
  \<^verbatim>\<open>KeyRange\<close> and a \<^verbatim>\<open>VelocityRange\<close> child. The writer of an instrument puts all of a
  zone into attributes of an empty \<^verbatim>\<open>Zone\<close> element and all zones into one \<^verbatim>\<open>Keygroup\<close>.

  \<^bold>\<open>C2: the reader does not read back what the instrument writer writes.\<close> The instrument
  the auto-mapper makes of the three example samples has three keygroups of one layer each.
  Exported and read back it is a program with one keygroup and no zone: the reader skips every
  zone element without a \<^verbatim>\<open>Sample\<close> child. Lemma \<open>exportInstrument_read_back\<close> shows the same
  for every instrument.
\<close>

theorem exported_instrument_not_read_back:
  "(let instruments = fst (autoMapSamples [''instrument_1'' \<mapsto> exampleInstrument] ''instrument_1''
                             exampleMapped)
    in map (\<lambda>kg. (lowNote kg, rootNote kg, highNote kg, map sampleId (velocityLayers kg)))
         (keygroups (the (instruments ''instrument_1'')))
       = [(0, 48, 54, [Some ''s2'']), (55, 60, 66, [Some ''s1'']), (67, 72, 127, [Some ''s3''])] \<and>
       map_option parseXPMContent
         (exportInstrument instruments exampleRegistry exampleCreated ''instrument_1'' ''piano'')
       = Some (Inr \<lparr>programName = ''piano'', programType = InstrumentProgram,
                     programKeygroups = Some [\<lparr>kgIndex = Some 0, zones = []\<rparr>]\<rparr>))"
  by code_simp

text \<open>The text that is written for the example.\<close>

lemma exported_instrument_text:
  \<open>exportInstrument
      (fst (autoMapSamples [''instrument_1'' \<mapsto> exampleInstrument] ''instrument_1'' exampleMapped))
      exampleRegistry exampleCreated ''instrument_1'' ''piano''
   = Some (
     ''<?xml version="1.0" encoding="UTF-8"?>\<newline>'' @
     ''<PluginProgram name="piano" type="keygroup">\<newline>'' @
     ''  <ProgramInfo>\<newline>'' @
     ''    <Name>piano</Name>\<newline>'' @
     ''    <Type>keygroup</Type>\<newline>'' @
     ''    <Created>2024-01-01T00:00:00.000Z</Created>\<newline>'' @
     ''  </ProgramInfo>\<newline>'' @
     ''  <Keygroup>\<newline>'' @
     ''    <Zone file="Piano_C3.wav" root="48" low="0" high="54" vel_low="0" vel_high="127" />\<newline>'' @
     ''    <Zone file="Piano_C4.wav" root="60" low="55" high="66" vel_low="0" vel_high="127" />\<newline>'' @
     ''    <Zone file="Piano_C5.wav" root="72" low="67" high="127" vel_low="0" vel_high="127" />\<newline>'' @
     ''  </Keygroup>\<newline>'' @
     ''</PluginProgram>'')\<close>
  by code_simp

text \<open>
  The writer does not escape what it puts between the quotes: a sample name with a double
  quote gives a text that is not well-formed, and reading it back fails.
\<close>

lemma quoted_name_not_read:
  \<open>parseXPMContent (generateInstrumentXPM exampleOptions
                      [(60, \<lparr>sampleName = ''a"b.wav'', buffer = None :: unit option\<rparr>)])
   = Inl Malformed\<close>
  by code_simp

subsection \<open>The textual repair pass (xpm-utils)\<close>

definition startsWith :: "string \<Rightarrow> string \<Rightarrow> bool" where
  "startsWith p s = (take (length p) s = p)"

text \<open>The same test, one character at a time.\<close>

lemma startsWith_code [code]:
  "startsWith [] s = True"
  "startsWith (p # ps) [] = False"
  "startsWith (p # ps) (c # cs) = (p = c \<and> startsWith ps cs)"
  by (auto simp: startsWith_def)

text \<open>\<^verbatim>\<open>s.includes(p)\<close>.\<close>

fun includesText :: "string \<Rightarrow> string \<Rightarrow> bool" where
  "includesText [] p = (p = [])"
| "includesText (c # cs) p = (startsWith p (c # cs) \<or> includesText cs p)"

text \<open>
  \<^verbatim>\<open>/name="([^"]+)"/.exec(attributes)\<close>: the value of the leftmost \<^verbatim>\<open>name="..."\<close> whose value is
  not empty and is closed by a quote.
\<close>

fun findName :: "string \<Rightarrow> string option" where
  "findName [] = None"
| "findName (c # cs) =
     (if startsWith (''name='' @ [CHR 0x22]) (c # cs) then
        (let rest = drop 6 (c # cs);
             v = takeWhile (\<lambda>x. x \<noteq> CHR 0x22) rest;
             after = dropWhile (\<lambda>x. x \<noteq> CHR 0x22) rest
         in if v \<noteq> [] \<and> after \<noteq> [] then Some v else findName cs)
      else findName cs)"

text \<open>
  The callback of the replacement, for the text \<open>attributes\<close> between \<^verbatim>\<open><Sample\<close> and the next
  \<^verbatim>\<open>>\<close>.
\<close>

definition fixSampleTag :: "string \<Rightarrow> string" where
  "fixSampleTag attrText =
     (if \<not> includesText attrText ''path='' then
        (case findName attrText of
           Some n \<Rightarrow> ''<Sample'' @ attrText @ '' path='' @ [CHR 0x22] @ n @ [CHR 0x22] @ ''>''
         | None \<Rightarrow> ''<Sample'' @ attrText @ ''>'')
      else ''<Sample'' @ attrText @ ''>'')"

text \<open>
  \<^verbatim>\<open>xpmContent.replace(/<Sample([^>]*)>/g, callback)\<close>: the matches are found from left to
  right and do not overlap; where \<^verbatim>\<open><Sample\<close> is not followed by any \<^verbatim>\<open>>\<close>, nothing matches from
  there on.
\<close>

function fixSamples :: "string \<Rightarrow> string" where
  "fixSamples [] = []"
| "fixSamples (c # cs) =
     (if startsWith ''<Sample'' (c # cs) then
        (let rest = drop 7 (c # cs);
             attrText = takeWhile (\<lambda>x. x \<noteq> CHR ''>'') rest
         in case dropWhile (\<lambda>x. x \<noteq> CHR ''>'') rest of
              [] \<Rightarrow> c # cs
            | g # tail \<Rightarrow> fixSampleTag attrText @ fixSamples tail)
      else c # fixSamples cs)"
  by pat_completeness auto
termination
proof (relation "measure length")
  fix c cs x xa x21 x22
  assume "x = drop 7 (c # cs)" and "dropWhile (\<lambda>x. x \<noteq> CHR ''>'') x = x21 # x22"
  then have "length (x21 # x22) \<le> length (drop 7 (c # cs))"
    by (metis length_dropWhile_le)
  then show "(x22, c # cs) \<in> measure length" by simp
qed simp_all

declare fixSamples.simps [simp del]

text \<open>
  The number of matches of \<^verbatim>\<open>new RegExp(`<${tag}[^>]*>`, "g")\<close>: the text \<^verbatim>\<open><tag\<close>, then
  anything up to the next \<^verbatim>\<open>>\<close>. The pattern does not ask for the name to end after \<open>tag\<close>, and
  it also matches an empty element \<^verbatim>\<open><tag ... />\<close>.
\<close>

function countOpen :: "string \<Rightarrow> string \<Rightarrow> nat" where
  "countOpen tag [] = 0"
| "countOpen tag (c # cs) =
     (if startsWith (CHR ''<'' # tag) (c # cs) then
        (case dropWhile (\<lambda>x. x \<noteq> CHR ''>'') (drop (length tag + 1) (c # cs)) of
           [] \<Rightarrow> 0
         | g # tail \<Rightarrow> 1 + countOpen tag tail)
      else countOpen tag cs)"
  by pat_completeness auto
termination
proof (relation "measure (\<lambda>(tag, s). length s)")
  fix tag c cs x21 x22
  assume "dropWhile (\<lambda>x. x \<noteq> CHR ''>'') (drop (length tag + 1) (c # cs)) = x21 # x22"
  then have "length (x21 # x22) \<le> length (drop (length tag + 1) (c # cs))"
    by (metis length_dropWhile_le)
  then show "((tag, x22), tag, c # cs) \<in> measure (\<lambda>(tag, s). length s)" by simp
qed simp_all

declare countOpen.simps [simp del]

text \<open>The number of occurrences of \<^verbatim>\<open></tag>\<close>.\<close>

definition closeTag :: "string \<Rightarrow> string" where
  "closeTag tag = ''</'' @ tag @ ''>''"

fun countClose :: "string \<Rightarrow> string \<Rightarrow> nat" where
  "countClose tag [] = 0"
| "countClose tag (c # cs) = (if startsWith (closeTag tag) (c # cs) then 1 else 0) + countClose tag cs"

text \<open>The callback of \<^verbatim>\<open>openTags.forEach\<close>: \<^verbatim>\<open>`</${tag}>\n`.repeat(openCount - closeCount)\<close>.\<close>

definition closers :: "string \<Rightarrow> nat \<Rightarrow> string" where
  "closers tag k = concat (replicate k (closeTag tag @ ''\<newline>''))"

definition balanceTag :: "string \<Rightarrow> string \<Rightarrow> string" where
  "balanceTag xpmContent tag =
     (let openCount = countOpen tag xpmContent;
          closeCount = countClose tag xpmContent
      in if openCount > closeCount then xpmContent @ closers tag (openCount - closeCount)
         else xpmContent)"

definition openTags :: "string list" where
  "openTags = [''DrumProgram'', ''KeygroupProgram'', ''Pads'', ''Keygroups'', ''Pad'', ''Keygroup'',
               ''Zone'', ''Sample'']"

definition withDeclaration :: "string \<Rightarrow> string" where
  "withDeclaration xpmContent =
     (if \<not> includesText xpmContent ''<?xml'' then xmlDeclaration @ ''\<newline>'' @ xpmContent
      else xpmContent)"

definition fixXPMContent :: "string \<Rightarrow> string" where
  "fixXPMContent xpmContent = foldl balanceTag (fixSamples (withDeclaration xpmContent)) openTags"

text \<open>
  A text is closed at its end when it does not stop inside a tag: no \<^verbatim>\<open><\<close> comes after its last
  \<^verbatim>\<open>>\<close> (and none at all when it has no \<^verbatim>\<open>>\<close>).
\<close>

definition closedAtEnd :: "string \<Rightarrow> bool" where
  "closedAtEnd s = (CHR ''<'' \<notin> set (takeWhile (\<lambda>c. c \<noteq> CHR ''>'') (rev s)))"







text \<open>The same keygroup with the path filled in and the two zones closed where they end.\<close>

definition nestedZones :: string where
  \<open>nestedZones =
     ''<Keygroup index="0">'' @
     ''<Zone><Sample name="a.wav" path="a.wav"></Sample></Zone>'' @
     ''<Zone><Sample name="b.wav" path="b.wav"></Sample>'' @
     ''<Zone><Sample name="c.wav" path="c.wav"></Sample>'' @
     ''</Zone></Zone></Keygroup>''\<close>

text \<open>A well-formed drum program, as \<^verbatim>\<open>generateDrumKitXPM\<close> writes it for one sample.\<close>

definition drumProgram :: string where
  \<open>drumProgram =
     xmlDeclaration @ ''\<newline>'' @
     ''<DrumProgram name="kit">\<newline>'' @
     ''  <Pads>\<newline>'' @
     ''    <Pad padIndex="0">\<newline>'' @
     ''      <Sample name="kick.wav" path="samples/kick.wav"/>\<newline>'' @
     ''    </Pad>\<newline>'' @
     ''  </Pads>\<newline>'' @
     ''</DrumProgram>''\<close>

subsubsection \<open>Texts that are closed at their end\<close>



lemma closedAtEnd_Nil [simp]: "closedAtEnd []"
  by (simp add: closedAtEnd_def)




























subsubsection \<open>The three repairs\<close>

text \<open>The declaration is put in front, followed by a line feed, exactly when \<^verbatim>\<open><?xml\<close> occurs nowhere.\<close>

lemma withDeclaration_prepends:
  "withDeclaration xpmContent
   = (if includesText xpmContent ''<?xml'' then xpmContent
      else xmlDeclaration @ ''\<newline>'' @ xpmContent)"
  by (simp add: withDeclaration_def)

text \<open>
  A sample tag without \<^verbatim>\<open>path=\<close> whose name is given and not empty gets the name as its path,
  after its other attributes; every other sample tag is left as it is.
\<close>

lemma fixSampleTag_fills_path:
  \<open>\<not> includesText attrText ''path='' \<Longrightarrow> findName attrText = Some n
   \<Longrightarrow> fixSampleTag attrText = ''<Sample'' @ attrText @ '' path="'' @ n @ ''">''\<close>
  by (simp add: fixSampleTag_def)

lemma fixSampleTag_unchanged:
  "includesText attrText ''path='' \<or> findName attrText = None
   \<Longrightarrow> fixSampleTag attrText = ''<Sample'' @ attrText @ ''>''"
  by (auto simp: fixSampleTag_def)



text \<open>
  With the two zones closed where they end, the reader reads three zone records from the
  keygroup.
\<close>

lemma nestedZones_read:
  "parseXPMContent nestedZones
   = Inr \<lparr>programName = ''Imported Program'', programType = InstrumentProgram,
          programKeygroups = Some
            [\<lparr>kgIndex = Some 0,
              zones = map (\<lambda>name. \<lparr>zoneSample = \<lparr>xs_name = name, xs_path = name\<rparr>,
                                    keyRoot = Some 60, keyLowBound = Some 0, keyHighBound = Some 127,
                                    velocityLow = Some 1, velocityHigh = Some 127\<rparr>)
                          [''a.wav'', ''b.wav'', ''c.wav'']\<rparr>]\<rparr>"
  by code_simp



text \<open>
  Outside of these texts the counts of the repair are not those of the open occurrences:
  \<^verbatim>\<open><Pads>\<close> also matches the pattern of \<^verbatim>\<open>Pad\<close>, and the empty element \<^verbatim>\<open><Sample ... />\<close> the
  pattern of \<^verbatim>\<open>Sample\<close>. The repair of the well-formed program \<open>drumProgram\<close>, in which every
  element is closed, appends a closing line for each, and reading the repaired text fails.
\<close>

lemma drumProgram_repaired:
  "parseXPMContent drumProgram \<noteq> Inl Malformed \<and>
   fixXPMContent drumProgram = drumProgram @ ''</Pad>\<newline></Sample>\<newline>'' \<and>
   parseXPMContent (fixXPMContent drumProgram) = Inl Malformed"
  by code_simp

text \<open>The same happens to the text the generator writes for an instrument with one sample.\<close>

lemma generated_program_repaired:
  "parseXPMContent (generateInstrumentXPM exampleOptions
                      [(60, \<lparr>sampleName = ''Piano_C4.wav'', buffer = None :: unit option\<rparr>)])
   \<noteq> Inl Malformed \<and>
   fixXPMContent (generateInstrumentXPM exampleOptions
                    [(60, \<lparr>sampleName = ''Piano_C4.wav'', buffer = None :: unit option\<rparr>)])
   = generateInstrumentXPM exampleOptions
       [(60, \<lparr>sampleName = ''Piano_C4.wav'', buffer = None :: unit option\<rparr>)]
     @ ''</Keygroup>\<newline></Keygroup>\<newline></Sample>\<newline>'' \<and>
   parseXPMContent (fixXPMContent (generateInstrumentXPM exampleOptions
                      [(60, \<lparr>sampleName = ''Piano_C4.wav'', buffer = None :: unit option\<rparr>)]))
   = Inl Malformed"
  by code_simp

end
